theory Spec2Isabelle
  imports Main "HOL-Library.Word"
begin

unbundle bit_operations_syntax

section \<open>JavaScript numbers, typed arrays and strings\<close>

text \<open>
  The library is TypeScript. Every number that reaches the envelope codec is an integer, so a
  JavaScript number is an \<open>int\<close> here and the conversions that the bitwise operators and
  the typed-array stores perform are written out: \<open>ToInt32\<close>, \<open>ToUint32\<close> and
  \<open>ToUint8\<close> are the abstract operations of ECMAScript on integral arguments.
  A \<open>Uint8Array\<close> is a list of bytes. Times (\<open>performance.now()\<close>, the configured
  timeout) are not used as integers: they are double-precision numbers, modelled below.
\<close>

type_synonym byte = "8 word"
type_synonym Uint8Array = "byte list"

definition ToInt32 :: "int \<Rightarrow> int" where
  "ToInt32 v = sint (word_of_int v :: 32 word)"

definition ToUint32 :: "int \<Rightarrow> int" where
  "ToUint32 v = uint (word_of_int v :: 32 word)"

definition ToUint8 :: "int \<Rightarrow> byte" where
  "ToUint8 v = word_of_int v"

text \<open>\<open>a >> n\<close>, \<open>a << n\<close>, \<open>a | b\<close> and \<open>a >>> 0\<close> for shift counts below 32.\<close>

definition js_sar :: "int \<Rightarrow> nat \<Rightarrow> int" where
  "js_sar a n = drop_bit n (ToInt32 a)"

definition js_shl :: "int \<Rightarrow> nat \<Rightarrow> int" where
  "js_shl a n = ToInt32 (push_bit n (ToInt32 a))"

definition js_or :: "int \<Rightarrow> int \<Rightarrow> int" where
  "js_or a b = ToInt32 a OR ToInt32 b"

definition js_ushr0 :: "int \<Rightarrow> int" where
  "js_ushr0 a = ToUint32 a"

subsection \<open>Double precision\<close>

text \<open>
  The timeout checker subtracts and compares times as IEEE 754 binary64 numbers. Every
  finite double is a whole multiple of \<open>2^-1074\<close>, so \<open>Finite n\<close> stands for the
  number \<open>n \<cdot> 2^-1074\<close>, where \<open>n\<close> has at most 53 significant bits and
  lies below \<open>2^2098\<close> in magnitude. The two zeros are not told apart: no comparison
  does. \<open>double_of_int k\<close> is the double of the integer \<open>k\<close>, exact for
  \<open>\<bar>k\<bar> < 2^53\<close>.

  A difference of two finite doubles is again a whole multiple of \<open>2^-1074\<close>;
  \<open>double_round\<close> rounds it to the nearest double, ties to the even significand, and
  to an infinity from \<open>2^1024 - 2^970\<close> on, as the default rounding mode does.
\<close>

datatype double = Finite int | PosInf | NegInf | NaN

definition double_scale :: int where
  "double_scale = 2 ^ 1074"

definition double_overflow :: nat where
  "double_overflow = 2 ^ 2098"

definition double_of_int :: "int \<Rightarrow> double" where
  "double_of_int k = Finite (k * double_scale)"

text \<open>The number of binary digits of \<open>n\<close>.\<close>

fun bit_length :: "nat \<Rightarrow> nat" where
  "bit_length n = (if n = 0 then 0 else Suc (bit_length (n div 2)))"

text \<open>\<open>n / 2^s\<close> rounded to the nearest integer, a tie to the even one.\<close>

definition round_half_even :: "nat \<Rightarrow> nat \<Rightarrow> nat" where
  "round_half_even n s =
     (let q = n div 2 ^ s;
          r = n mod 2 ^ s
      in if 2 * r < 2 ^ s then q
         else if 2 ^ s < 2 * r then q + 1
         else if even q then q else q + 1)"

text \<open>\<open>n\<close> rounded to 53 significant bits.\<close>

definition round_nat :: "nat \<Rightarrow> nat" where
  "round_nat n = (let s = bit_length n - 53 in round_half_even n s * 2 ^ s)"

definition double_round :: "int \<Rightarrow> double" where
  "double_round x =
     (let m = round_nat (nat \<bar>x\<bar>)
      in if double_overflow \<le> m then (if x < 0 then NegInf else PosInf)
         else Finite (sgn x * int m))"

text \<open>\<open>a - b\<close> and \<open>a <= b\<close>, \<open>a >= b\<close> on doubles; a comparison with NaN is false.\<close>

fun double_sub :: "double \<Rightarrow> double \<Rightarrow> double" where
  "double_sub NaN b = NaN"
| "double_sub a NaN = NaN"
| "double_sub (Finite a) (Finite b) = double_round (a - b)"
| "double_sub (Finite a) PosInf = NegInf"
| "double_sub (Finite a) NegInf = PosInf"
| "double_sub PosInf PosInf = NaN"
| "double_sub PosInf b = PosInf"
| "double_sub NegInf NegInf = NaN"
| "double_sub NegInf b = NegInf"

fun double_le :: "double \<Rightarrow> double \<Rightarrow> bool" where
  "double_le NaN b = False"
| "double_le a NaN = False"
| "double_le NegInf b = True"
| "double_le a PosInf = True"
| "double_le (Finite a) (Finite b) = (a \<le> b)"
| "double_le a b = False"

definition double_ge :: "double \<Rightarrow> double \<Rightarrow> bool" where
  "double_ge a b = double_le b a"

definition is_finite :: "double \<Rightarrow> bool" where
  "is_finite a = (case a of Finite x \<Rightarrow> True | _ \<Rightarrow> False)"

subsection \<open>Typed arrays and strings\<close>

text \<open>
  \<open>buf[i]\<close> as an operand of a bitwise operator: an index past the end reads
  \<open>undefined\<close>, which \<open>ToInt32\<close> turns into 0. A store \<open>buf[i] = v\<close> past the end is
  ignored, which is what \<open>xs[i := v]\<close> does on lists.
\<close>

definition elem :: "Uint8Array \<Rightarrow> nat \<Rightarrow> int" where
  "elem buf i = (if i < length buf then uint (buf ! i) else 0)"

text \<open>
  \<open>target.set(source, offset)\<close>. The library calls it only on a target allocated with
  \<open>offset + source.length\<close> elements, so the range error of the platform cannot arise.
\<close>

definition Uint8Array_set :: "Uint8Array \<Rightarrow> Uint8Array \<Rightarrow> nat \<Rightarrow> Uint8Array" where
  "Uint8Array_set target source offset =
     take offset target @ source @ drop (offset + length source) target"

text \<open>\<open>buf.subarray(b, e)\<close> for \<open>0 \<le> b\<close>, \<open>0 \<le> e\<close>; both ends are clamped to the length.\<close>

definition subarray :: "Uint8Array \<Rightarrow> nat \<Rightarrow> nat \<Rightarrow> Uint8Array" where
  "subarray buf b e = drop b (take e buf)"

text \<open>
  A JavaScript string is a sequence of UTF-16 code units. \<open>js_str\<close> writes the ASCII
  literals of the source.
\<close>

type_synonym js_string = "16 word list"

definition js_str :: "string \<Rightarrow> js_string" where
  "js_str s = map of_char s"

subsection \<open>The platform's UTF-8 codec\<close>

text \<open>
  \<open>textEncoder.encode\<close> and \<open>textDecoder.decode\<close> belong to the platform, not to the
  library. They are modelled after the WHATWG Encoding Standard, which the platform
  implements: the encoder first replaces every unpaired surrogate by U+FFFD and then writes
  each scalar value in one to four bytes; the decoder is the standard's state machine in
  replacement mode (the library constructs \<open>new TextDecoder()\<close> with no options, so
  \<open>fatal\<close> and \<open>ignoreBOM\<close> are false), followed by the removal of one leading U+FEFF.
  Shifts and masks of the standard are written as division and remainder.
\<close>

definition is_lead_surrogate :: "16 word \<Rightarrow> bool" where
  "is_lead_surrogate u = (0xD800 \<le> unat u \<and> unat u \<le> 0xDBFF)"

definition is_trail_surrogate :: "16 word \<Rightarrow> bool" where
  "is_trail_surrogate u = (0xDC00 \<le> unat u \<and> unat u \<le> 0xDFFF)"

fun scalar_values :: "js_string \<Rightarrow> nat list" where
  "scalar_values [] = []"
| "scalar_values [u] =
     [if is_lead_surrogate u \<or> is_trail_surrogate u then 0xFFFD else unat u]"
| "scalar_values (u # v # rest) =
     (if is_lead_surrogate u then
        (if is_trail_surrogate v then
           (0x10000 + (unat u - 0xD800) * 0x400 + (unat v - 0xDC00)) # scalar_values rest
         else 0xFFFD # scalar_values (v # rest))
      else if is_trail_surrogate u then 0xFFFD # scalar_values (v # rest)
      else unat u # scalar_values (v # rest))"

definition utf8_encode_scalar :: "nat \<Rightarrow> Uint8Array" where
  "utf8_encode_scalar c =
     (if c < 0x80 then [of_nat c]
      else if c < 0x800 then [of_nat (0xC0 + c div 64), of_nat (0x80 + c mod 64)]
      else if c < 0x10000 then
        [of_nat (0xE0 + c div 4096), of_nat (0x80 + c div 64 mod 64), of_nat (0x80 + c mod 64)]
      else
        [of_nat (0xF0 + c div 262144), of_nat (0x80 + c div 4096 mod 64),
         of_nat (0x80 + c div 64 mod 64), of_nat (0x80 + c mod 64)])"

definition TextEncoder_encode :: "js_string \<Rightarrow> Uint8Array" where
  "TextEncoder_encode s = concat (map utf8_encode_scalar (scalar_values s))"

record utf8_decoder =
  code_point :: nat
  bytes_seen :: nat
  bytes_needed :: nat
  lower_boundary :: nat
  upper_boundary :: nat

definition utf8_decoder_init :: utf8_decoder where
  "utf8_decoder_init =
     \<lparr>code_point = 0, bytes_seen = 0, bytes_needed = 0,
      lower_boundary = 0x80, upper_boundary = 0xBF\<rparr>"

text \<open>The handler's step on a byte when no continuation byte is awaited.\<close>

definition utf8_lead :: "utf8_decoder \<Rightarrow> nat \<Rightarrow> utf8_decoder \<times> nat list" where
  "utf8_lead d b =
     (if b \<le> 0x7F then (d, [b])
      else if 0xC2 \<le> b \<and> b \<le> 0xDF then
        (d\<lparr>bytes_needed := 1, code_point := b mod 32\<rparr>, [])
      else if 0xE0 \<le> b \<and> b \<le> 0xEF then
        (d\<lparr>lower_boundary := (if b = 0xE0 then 0xA0 else lower_boundary d),
           upper_boundary := (if b = 0xED then 0x9F else upper_boundary d),
           bytes_needed := 2, code_point := b mod 16\<rparr>, [])
      else if 0xF0 \<le> b \<and> b \<le> 0xF4 then
        (d\<lparr>lower_boundary := (if b = 0xF0 then 0x90 else lower_boundary d),
           upper_boundary := (if b = 0xF4 then 0x8F else upper_boundary d),
           bytes_needed := 3, code_point := b mod 8\<rparr>, [])
      else (d, [0xFFFD]))"

text \<open>
  The handler: the new decoder state and the scalar values emitted. A byte outside the
  awaited range yields U+FFFD and is then read again as a leading byte.
\<close>

definition utf8_handler :: "utf8_decoder \<Rightarrow> nat \<Rightarrow> utf8_decoder \<times> nat list" where
  "utf8_handler d b =
     (if bytes_needed d = 0 then utf8_lead d b
      else if b < lower_boundary d \<or> upper_boundary d < b then
        (let (d', out) = utf8_lead utf8_decoder_init b in (d', 0xFFFD # out))
      else
        let d1 = d\<lparr>lower_boundary := 0x80, upper_boundary := 0xBF,
                   code_point := code_point d * 64 + b mod 64,
                   bytes_seen := bytes_seen d + 1\<rparr>
        in if bytes_seen d1 \<noteq> bytes_needed d1 then (d1, [])
           else (utf8_decoder_init, [code_point d1]))"

fun utf8_decode :: "utf8_decoder \<Rightarrow> Uint8Array \<Rightarrow> nat list" where
  "utf8_decode d [] = (if bytes_needed d \<noteq> 0 then [0xFFFD] else [])"
| "utf8_decode d (b # bs) =
     (case utf8_handler d (unat b) of (d', out) \<Rightarrow> out @ utf8_decode d' bs)"

fun strip_BOM :: "nat list \<Rightarrow> nat list" where
  "strip_BOM [] = []"
| "strip_BOM (c # cs) = (if c = 0xFEFF then cs else c # cs)"

definition utf16_units :: "nat \<Rightarrow> js_string" where
  "utf16_units c =
     (if c < 0x10000 then [of_nat c]
      else [of_nat (0xD800 + (c - 0x10000) div 0x400),
            of_nat (0xDC00 + (c - 0x10000) mod 0x400)])"

definition TextDecoder_decode :: "Uint8Array \<Rightarrow> js_string" where
  "TextDecoder_decode bytes =
     concat (map utf16_units (strip_BOM (utf8_decode utf8_decoder_init bytes)))"

text \<open>A string with no unpaired surrogate.\<close>

fun well_formed :: "js_string \<Rightarrow> bool" where
  "well_formed [] = True"
| "well_formed [u] = (\<not> is_lead_surrogate u \<and> \<not> is_trail_surrogate u)"
| "well_formed (u # v # rest) =
     (if is_lead_surrogate u then is_trail_surrogate v \<and> well_formed rest
      else \<not> is_trail_surrogate u \<and> well_formed (v # rest))"

section \<open>The envelope codec\<close>

record FbRpcError =
  err_code :: int
  err_message :: js_string
  err_id :: int
  err_errorMessage :: js_string

definition PARSE_ERROR_code :: int where "PARSE_ERROR_code = 1000"
definition PARSE_ERROR_message :: js_string where
  "PARSE_ERROR_message = js_str ''Failed to parse message''"
definition INVALID_REQUEST_code :: int where "INVALID_REQUEST_code = 1001"
definition METHOD_NOT_FOUND_code :: int where "METHOD_NOT_FOUND_code = 1002"
definition METHOD_NOT_FOUND_message :: js_string where
  "METHOD_NOT_FOUND_message = js_str ''Method not found''"
definition INTERNAL_ERROR_code :: int where "INTERNAL_ERROR_code = 1004"
definition INTERNAL_ERROR_message :: js_string where
  "INTERNAL_ERROR_message = js_str ''Internal error''"
definition REQUEST_TIMEOUT_code :: int where "REQUEST_TIMEOUT_code = 1005"
definition REQUEST_TIMEOUT_message :: js_string where
  "REQUEST_TIMEOUT_message = js_str ''Request has timed-out''"
definition GUARD_ERROR_code :: int where "GUARD_ERROR_code = 1006"
definition APPLICATION_ERROR_code :: int where "APPLICATION_ERROR_code = 1007"

definition HEADER_SIZE :: nat where
  "HEADER_SIZE = 12"

definition write16 :: "Uint8Array \<Rightarrow> nat \<Rightarrow> int \<Rightarrow> Uint8Array" where
  "write16 buf offset val =
     (buf[offset := ToUint8 val])[offset + 1 := ToUint8 (js_sar val 8)]"

definition write32 :: "Uint8Array \<Rightarrow> nat \<Rightarrow> int \<Rightarrow> Uint8Array" where
  "write32 buf offset val =
     (((buf[offset := ToUint8 val])[offset + 1 := ToUint8 (js_sar val 8)])
         [offset + 2 := ToUint8 (js_sar val 16)])[offset + 3 := ToUint8 (js_sar val 24)]"

text \<open>The message type, the method and the id are numbers; \<open>body.length\<close> is a number too.\<close>

definition encodeMessage :: "int \<Rightarrow> int \<Rightarrow> int \<Rightarrow> Uint8Array \<Rightarrow> Uint8Array" where
  "encodeMessage type id' method body =
     (let msg = replicate (HEADER_SIZE + length body) 0;
          msg = msg[0 := ToUint8 type];
          msg = write16 msg 2 method;
          msg = write32 msg 4 id';
          msg = write32 msg 8 (int (length body))
      in Uint8Array_set msg body HEADER_SIZE)"

definition encodeVoidResponse :: "int \<Rightarrow> int \<Rightarrow> Uint8Array" where
  "encodeVoidResponse id' method =
     (let msg = replicate HEADER_SIZE 0;
          msg = msg[0 := ToUint8 2];
          msg = write16 msg 2 method
      in write32 msg 4 id')"

definition encodeErrorResponse :: "int \<Rightarrow> int \<Rightarrow> js_string \<Rightarrow> Uint8Array" where
  "encodeErrorResponse id' code message =
     (let msgBytes = TextEncoder_encode message;
          body = replicate (4 + length msgBytes) 0;
          body = write32 body 0 code;
          body = Uint8Array_set body msgBytes 4
      in encodeMessage 3 id' 0 body)"

record DecodedMessage =
  msg_type :: int
  msg_id :: int
  msg_method :: int
  msg_body :: Uint8Array

definition read16 :: "Uint8Array \<Rightarrow> nat \<Rightarrow> int" where
  "read16 buf offset = js_or (elem buf offset) (js_shl (elem buf (offset + 1)) 8)"

definition readI32 :: "Uint8Array \<Rightarrow> nat \<Rightarrow> int" where
  "readI32 buf offset =
     js_or (js_or (js_or (elem buf offset) (js_shl (elem buf (offset + 1)) 8))
                  (js_shl (elem buf (offset + 2)) 16))
           (js_shl (elem buf (offset + 3)) 24)"

definition read32 :: "Uint8Array \<Rightarrow> nat \<Rightarrow> int" where
  "read32 buf offset = js_ushr0 (readI32 buf offset)"

text \<open>A thrown \<open>FbRpcError\<close> is the left summand.\<close>

definition decodeMessage :: "Uint8Array \<Rightarrow> FbRpcError + DecodedMessage" where
  "decodeMessage data =
     (if length data < HEADER_SIZE then
        Inl \<lparr>err_code = PARSE_ERROR_code, err_message = PARSE_ERROR_message,
             err_id = -1, err_errorMessage = js_str ''Message too short''\<rparr>
      else
        let type = elem data 0;
            method = read16 data 2;
            id' = read32 data 4;
            bodyLen = read32 data 8
        in if int (length data) < int HEADER_SIZE + bodyLen then
             Inl \<lparr>err_code = PARSE_ERROR_code, err_message = PARSE_ERROR_message,
                  err_id = -1, err_errorMessage = js_str ''Incomplete message''\<rparr>
           else
             Inr \<lparr>msg_type = type, msg_id = id', msg_method = method,
                  msg_body = subarray data HEADER_SIZE (HEADER_SIZE + nat bodyLen)\<rparr>)"

text \<open>The object \<open>{ code, message }\<close> is a pair; \<open>body.subarray(4)\<close> runs to the end.\<close>

definition decodeErrorResponse :: "Uint8Array \<Rightarrow> int \<times> js_string" where
  "decodeErrorResponse body =
     (let code = readI32 body 0;
          message = TextDecoder_decode (subarray body 4 (length body))
      in (code, message))"

section \<open>The peer\<close>

text \<open>
  A peer is the record of its fields, and each method of the class takes the peer and
  returns it updated. What a call makes visible outside the peer is appended to its
  \<open>trace\<close>: a frame handed to the transport callback, a waiter resolved or rejected, a
  guard or a handler invoked, a continuation chained to a handler's promise.

  Functions supplied by the user (request constructors, guards, handlers) are pure here: a
  call either returns or throws, and it does not call back into the peer. A thrown value is
  an \<open>Error\<close>, as the casts \<open>e as Error\<close> of the source have it, known by its
  \<open>message\<close> and by what its \<open>toString()\<close> returns. An object that can pack itself is
  the bytes that its \<open>pack\<close> leaves in the builder.
\<close>

subsection \<open>Collections\<close>

text \<open>
  A JavaScript \<open>Map\<close> iterates in insertion order: it is an association list with
  distinct keys, where \<open>set\<close> on a present key replaces the value in place.
\<close>

definition Map_get :: "('k \<times> 'v) list \<Rightarrow> 'k \<Rightarrow> 'v option" where
  "Map_get m k = map_of m k"

fun Map_set :: "('k \<times> 'v) list \<Rightarrow> 'k \<Rightarrow> 'v \<Rightarrow> ('k \<times> 'v) list" where
  "Map_set [] k v = [(k, v)]"
| "Map_set ((k', v') # m) k v = (if k' = k then (k, v) # m else (k', v') # Map_set m k v)"

definition Map_delete :: "('k \<times> 'v) list \<Rightarrow> 'k \<Rightarrow> ('k \<times> 'v) list" where
  "Map_delete m k = filter (\<lambda>(k', v). k' \<noteq> k) m"

definition Map_size :: "('k \<times> 'v) list \<Rightarrow> nat" where
  "Map_size m = length m"

definition Map_values :: "('k \<times> 'v) list \<Rightarrow> 'v list" where
  "Map_values m = map snd m"

subsection \<open>Callbacks, handler entries and waiters\<close>

record Error =
  Error_message :: js_string
  Error_toString :: js_string

type_synonym FBPackable = Uint8Array

definition packFB :: "FBPackable \<Rightarrow> Uint8Array" where
  "packFB obj = obj"

datatype js_value = Undefined | Packable FBPackable | Promise nat

datatype completion = Return js_value | Throw Error

datatype ('t, 'a) argument = ReqArg 't | AppDataArg 'a

type_synonym ('t, 'a) AnyFunction = "('t, 'a) argument list \<Rightarrow> completion"

text \<open>
  A table constructor \<open>Ctor\<close> stands for \<open>new Ctor().__init(i, bb)\<close>: from the root
  offset and the bytes of the buffer it gives the reader, or throws. The buffer is fresh, so
  its position is 0, and its \<open>readInt32\<close> is the little-endian signed read.
\<close>

type_synonym 't Ctor = "int \<Rightarrow> Uint8Array \<Rightarrow> Error + 't"

definition unpackFB :: "'t Ctor \<Rightarrow> Uint8Array \<Rightarrow> Error + 't" where
  "unpackFB Ctor bytes = Ctor (readI32 bytes 0 + 0) bytes"

datatype GuardType = Guard | RequestGuard | AppDataGuard

record ('t, 'a) Guard =
  guard_type :: GuardType
  guard_fn :: "('t, 'a) AnyFunction"

record 't MethodDef =
  Req :: "'t Ctor"
  Res :: "'t Ctor option"

record ('t, 'a) HandlerEntry = "'t MethodDef" +
  fn :: "('t, 'a) AnyFunction"
  guards :: "('t, 'a) Guard list"

text \<open>
  Handler entries are objects shared between the dispatcher and the handles returned by
  \<open>registerHandler\<close>: they live in a store (\<open>entries\<close>), and the dispatcher and a
  \<open>DispatcherHandler\<close> hold an index into it.
\<close>

datatype DispatcherHandler = DispatcherHandler nat

text \<open>
  The \<open>resolve\<close> and \<open>reject\<close> fields of a waiter are the two functions of the promise
  that \<open>request\<close> returned; calling them is recorded in the trace.
\<close>

record PendingRequest =
  req_id :: int
  req_method :: int
  timestamp :: double

datatype timer = Interval nat

datatype ('t, 'a) event =
    ToTransport nat Uint8Array 'a
  | Resolve PendingRequest "'t option"
  | Reject PendingRequest FbRpcError
  | GuardCall int nat "('t, 'a) argument list"
  | HandlerCall int "('t, 'a) argument list"
  | Chained nat int int bool 'a

record FbRpcOptions =
  opt_requestTimeout :: "double option"
  opt_builderInitialSize :: "nat option"

text \<open>
  \<open>requestIdCounter\<close> is the module-level counter; the model follows one peer and
  carries the counter with it. The transport callback is known by a number.
\<close>

record ('t, 'a) FbRpc =
  requestTimeout :: double
  toTransport :: "nat option"
  dispatcher :: "(int \<times> nat) list"
  pendingRequests :: "(int \<times> PendingRequest) list"
  schema :: "int \<Rightarrow> 't MethodDef option"
  timeoutCheckInterval :: "timer option"
  requestIdCounter :: int
  entries :: "('t, 'a) HandlerEntry list"
  trace :: "('t, 'a) event list"

definition TIMEOUT_CHECK_INTERVAL_MS :: nat where
  "TIMEOUT_CHECK_INTERVAL_MS = 100"

definition generateRequestId :: "int \<Rightarrow> int" where
  "generateRequestId counter = js_ushr0 (counter + 1)"

definition FbRpc_new ::
  "int \<Rightarrow> (int \<Rightarrow> 't MethodDef option) \<Rightarrow> FbRpcOptions \<Rightarrow> ('t, 'a) FbRpc" where
  "FbRpc_new counter schema' options =
     \<lparr>requestTimeout =
        (case opt_requestTimeout options of Some t \<Rightarrow> t | None \<Rightarrow> double_of_int 5000),
      toTransport = None, dispatcher = [], pendingRequests = [], schema = schema',
      timeoutCheckInterval = None, requestIdCounter = counter, entries = [], trace = []\<rparr>"

subsection \<open>Registration\<close>

definition registerToTransportCallback :: "('t, 'a) FbRpc \<Rightarrow> nat \<Rightarrow> ('t, 'a) FbRpc" where
  "registerToTransportCallback s cb = s\<lparr>toTransport := Some cb\<rparr>"

text \<open>
  \<open>this.schema[method].Req\<close> throws a type error when the schema has no such method
  (the result \<open>None\<close>); the parameter type \<open>keyof S\<close> rules that call out.
\<close>

definition registerHandler ::
  "('t, 'a) FbRpc \<Rightarrow> int \<Rightarrow> ('t, 'a) AnyFunction \<Rightarrow> (('t, 'a) FbRpc \<times> DispatcherHandler) option" where
  "registerHandler s method handler =
     (case schema s method of
        None \<Rightarrow> None
      | Some d \<Rightarrow>
          let entry = \<lparr>Req = Req d, Res = Res d, fn = handler, guards = []\<rparr>;
              r = length (entries s)
          in Some (s\<lparr>entries := entries s @ [entry],
                      dispatcher := Map_set (dispatcher s) method r\<rparr>,
                   DispatcherHandler r))"

definition push_guard ::
  "('t, 'a) FbRpc \<Rightarrow> DispatcherHandler \<Rightarrow> ('t, 'a) Guard \<Rightarrow> ('t, 'a) FbRpc" where
  "push_guard s h g =
     (case h of DispatcherHandler r \<Rightarrow>
        if r < length (entries s) then
          s\<lparr>entries := (entries s)[r := (entries s ! r)\<lparr>guards := guards (entries s ! r) @ [g]\<rparr>]\<rparr>
        else s)"

definition addGuard ::
  "('t, 'a) FbRpc \<Rightarrow> DispatcherHandler \<Rightarrow> ('t, 'a) AnyFunction \<Rightarrow> ('t, 'a) FbRpc" where
  "addGuard s h f = push_guard s h \<lparr>guard_type = Guard, guard_fn = f\<rparr>"

definition addRequestGuard ::
  "('t, 'a) FbRpc \<Rightarrow> DispatcherHandler \<Rightarrow> ('t, 'a) AnyFunction \<Rightarrow> ('t, 'a) FbRpc" where
  "addRequestGuard s h f = push_guard s h \<lparr>guard_type = RequestGuard, guard_fn = f\<rparr>"

definition addAppDataGuard ::
  "('t, 'a) FbRpc \<Rightarrow> DispatcherHandler \<Rightarrow> ('t, 'a) AnyFunction \<Rightarrow> ('t, 'a) FbRpc" where
  "addAppDataGuard s h f = push_guard s h \<lparr>guard_type = AppDataGuard, guard_fn = f\<rparr>"

subsection \<open>Sending, and the timeout checker\<close>

definition callToTransport :: "('t, 'a) FbRpc \<Rightarrow> Uint8Array \<Rightarrow> 'a \<Rightarrow> ('t, 'a) FbRpc" where
  "callToTransport s data appData =
     (case toTransport s of
        Some cb \<Rightarrow> s\<lparr>trace := trace s @ [ToTransport cb data appData]\<rparr>
      | None \<Rightarrow> s)"

definition resolve :: "PendingRequest \<Rightarrow> 't option \<Rightarrow> ('t, 'a) FbRpc \<Rightarrow> ('t, 'a) FbRpc" where
  "resolve request v s = s\<lparr>trace := trace s @ [Resolve request v]\<rparr>"

definition reject :: "PendingRequest \<Rightarrow> FbRpcError \<Rightarrow> ('t, 'a) FbRpc \<Rightarrow> ('t, 'a) FbRpc" where
  "reject request e s = s\<lparr>trace := trace s @ [Reject request e]\<rparr>"

definition stopTimeoutChecker :: "('t, 'a) FbRpc \<Rightarrow> ('t, 'a) FbRpc" where
  "stopTimeoutChecker s =
     (if timeoutCheckInterval s \<noteq> None then s\<lparr>timeoutCheckInterval := None\<rparr> else s)"

definition startTimeoutChecker :: "('t, 'a) FbRpc \<Rightarrow> ('t, 'a) FbRpc" where
  "startTimeoutChecker s =
     (if timeoutCheckInterval s \<noteq> None then s
      else s\<lparr>timeoutCheckInterval := Some (Interval TIMEOUT_CHECK_INTERVAL_MS)\<rparr>)"

text \<open>The first loop of the interval callback: it stops at the first waiter still in time.\<close>

fun timedOutRequests ::
  "(int \<times> PendingRequest) list \<Rightarrow> double \<Rightarrow> double \<Rightarrow> int list" where
  "timedOutRequests [] now timeout = []"
| "timedOutRequests ((id', request) # rest) now timeout =
     (if double_ge (double_sub now (timestamp request)) timeout then
        id' # timedOutRequests rest now timeout
      else [])"

text \<open>The body of the second loop.\<close>

definition expire :: "int \<Rightarrow> ('t, 'a) FbRpc \<Rightarrow> ('t, 'a) FbRpc" where
  "expire id' s =
     (case Map_get (pendingRequests s) id' of
        Some request \<Rightarrow>
          reject request
            \<lparr>err_code = REQUEST_TIMEOUT_code, err_message = REQUEST_TIMEOUT_message,
             err_id = -1, err_errorMessage = []\<rparr>
            (s\<lparr>pendingRequests := Map_delete (pendingRequests s) id'\<rparr>)
      | None \<Rightarrow> s)"

definition timeoutCheck :: "('t, 'a) FbRpc \<Rightarrow> double \<Rightarrow> ('t, 'a) FbRpc" where
  "timeoutCheck s now =
     (let ids = timedOutRequests (pendingRequests s) now (requestTimeout s);
          s = fold expire ids s
      in if Map_size (pendingRequests s) = 0 then stopTimeoutChecker s else s)"

text \<open>The interval callback runs only while the interval is set.\<close>

definition tick :: "('t, 'a) FbRpc \<Rightarrow> double \<Rightarrow> ('t, 'a) FbRpc" where
  "tick s now = (case timeoutCheckInterval s of None \<Rightarrow> s | Some t \<Rightarrow> timeoutCheck s now)"

subsection \<open>Outbound calls\<close>

text \<open>\<open>now\<close> is what \<open>performance.now()\<close> returns inside the call.\<close>

definition request ::
  "('t, 'a) FbRpc \<Rightarrow> int \<Rightarrow> FBPackable \<Rightarrow> 'a \<Rightarrow> double \<Rightarrow> ('t, 'a) FbRpc" where
  "request s method req appData now =
     (let id' = generateRequestId (requestIdCounter s);
          s = s\<lparr>requestIdCounter := id'\<rparr>;
          body = packFB req;
          msg = encodeMessage 0 id' method body;
          s = s\<lparr>pendingRequests := Map_set (pendingRequests s) id'
                 \<lparr>req_id = id', req_method = method, timestamp = now\<rparr>\<rparr>;
          s = (if Map_size (pendingRequests s) = 1 then startTimeoutChecker s else s)
      in callToTransport s msg appData)"

definition notify :: "('t, 'a) FbRpc \<Rightarrow> int \<Rightarrow> FBPackable \<Rightarrow> 'a \<Rightarrow> ('t, 'a) FbRpc" where
  "notify s method req appData =
     (let body = packFB req in callToTransport s (encodeMessage 1 0 method body) appData)"

definition encodeNotification :: "int \<Rightarrow> FBPackable \<Rightarrow> Uint8Array" where
  "encodeNotification method req = (let body = packFB req in encodeMessage 1 0 method body)"

subsection \<open>Inbound frames\<close>

definition guard_args :: "GuardType \<Rightarrow> 't \<Rightarrow> 'a \<Rightarrow> ('t, 'a) argument list" where
  "guard_args ty req appData =
     (case ty of
        Guard \<Rightarrow> [ReqArg req, AppDataArg appData]
      | RequestGuard \<Rightarrow> [ReqArg req]
      | AppDataGuard \<Rightarrow> [AppDataArg appData])"

text \<open>
  The guard loop, from index \<open>i\<close> on: the calls made, and the error that ended the loop if
  a guard threw.
\<close>

fun run_guards ::
  "('t, 'a) Guard list \<Rightarrow> nat \<Rightarrow> int \<Rightarrow> 't \<Rightarrow> 'a \<Rightarrow> ('t, 'a) event list \<times> Error option" where
  "run_guards [] i m req appData = ([], None)"
| "run_guards (g # gs) i m req appData =
     (let args = guard_args (guard_type g) req appData in
      case guard_fn g args of
        Throw e \<Rightarrow> ([GuardCall m i args], Some e)
      | Return v \<Rightarrow>
          (case run_guards gs (Suc i) m req appData of
             (calls, r) \<Rightarrow> (GuardCall m i args # calls, r)))"

text \<open>
  The two callbacks chained to a promise that a handler returned; \<open>res\<close> is \<open>None\<close> when
  the promise fulfils with \<open>undefined\<close>.
\<close>

definition then_callback ::
  "('t, 'a) FbRpc \<Rightarrow> int \<Rightarrow> int \<Rightarrow> bool \<Rightarrow> 'a \<Rightarrow> FBPackable option \<Rightarrow> ('t, 'a) FbRpc" where
  "then_callback s id' method hasRes appData res =
     (case res of
        None \<Rightarrow> callToTransport s (encodeVoidResponse id' method) appData
      | Some obj \<Rightarrow>
          if \<not> hasRes then callToTransport s (encodeVoidResponse id' method) appData
          else callToTransport s (encodeMessage 2 id' method (packFB obj)) appData)"

definition catch_callback :: "('t, 'a) FbRpc \<Rightarrow> int \<Rightarrow> 'a \<Rightarrow> Error \<Rightarrow> ('t, 'a) FbRpc" where
  "catch_callback s id' appData e =
     callToTransport s (encodeErrorResponse id' APPLICATION_ERROR_code (Error_message e)) appData"

text \<open>
  A dispatcher value always denotes a live entry; the test on the index only keeps the
  model total.
\<close>

definition handleRequest :: "('t, 'a) FbRpc \<Rightarrow> DecodedMessage \<Rightarrow> 'a \<Rightarrow> ('t, 'a) FbRpc" where
  "handleRequest s msg appData =
     (let isNotif = (msg_type msg = 1) in
      case Map_get (dispatcher s) (msg_method msg) of
        None \<Rightarrow>
          if \<not> isNotif then
            callToTransport s
              (encodeErrorResponse (msg_id msg) METHOD_NOT_FOUND_code METHOD_NOT_FOUND_message)
              appData
          else s
      | Some r \<Rightarrow>
          if length (entries s) \<le> r then s
          else
            let handler = entries s ! r in
            case unpackFB (Req handler) (msg_body msg) of
              Inl e \<Rightarrow>
                if \<not> isNotif then
                  callToTransport s
                    (encodeErrorResponse (msg_id msg) INVALID_REQUEST_code (Error_message e))
                    appData
                else s
            | Inr req \<Rightarrow>
                (case run_guards (guards handler) 0 (msg_method msg) req appData of
                   (calls, Some err) \<Rightarrow>
                     let s = s\<lparr>trace := trace s @ calls\<rparr> in
                     if isNotif then s
                     else
                       callToTransport s
                         (encodeErrorResponse (msg_id msg) GUARD_ERROR_code (Error_toString err))
                         appData
                 | (calls, None) \<Rightarrow>
                     let s = s\<lparr>trace := trace s @ calls\<rparr>;
                         hasRes = (Res handler \<noteq> None);
                         args = [ReqArg req, AppDataArg appData];
                         s = s\<lparr>trace := trace s @ [HandlerCall (msg_method msg) args]\<rparr>
                     in
                       case fn handler args of
                         Throw err \<Rightarrow>
                           if isNotif then s
                           else
                             callToTransport s
                               (encodeErrorResponse (msg_id msg) APPLICATION_ERROR_code
                                  (Error_message err))
                               appData
                       | Return result \<Rightarrow>
                           if isNotif then s
                           else
                             (case result of
                                Promise p \<Rightarrow>
                                  s\<lparr>trace := trace s @
                                       [Chained p (msg_id msg) (msg_method msg) hasRes appData]\<rparr>
                              | Undefined \<Rightarrow>
                                  callToTransport s
                                    (encodeVoidResponse (msg_id msg) (msg_method msg)) appData
                              | Packable obj \<Rightarrow>
                                  if \<not> hasRes then
                                    callToTransport s
                                      (encodeVoidResponse (msg_id msg) (msg_method msg)) appData
                                  else
                                    callToTransport s
                                      (encodeMessage 2 (msg_id msg) (msg_method msg) (packFB obj))
                                      appData)))"

text \<open>
  Reading \<open>.Res\<close> of a method that the schema lacks throws a type error inside the
  \<open>try\<close>; its message is the engine's.
\<close>

definition TypeError_message :: js_string where
  "TypeError_message = js_str ''Cannot read properties of undefined (reading 'Res')''"

definition handleResponse :: "('t, 'a) FbRpc \<Rightarrow> DecodedMessage \<Rightarrow> ('t, 'a) FbRpc" where
  "handleResponse s msg =
     (case Map_get (pendingRequests s) (msg_id msg) of
        None \<Rightarrow> s
      | Some pendingRequest \<Rightarrow>
          let s = s\<lparr>pendingRequests := Map_delete (pendingRequests s) (msg_id msg)\<rparr>;
              s = (if Map_size (pendingRequests s) = 0 then stopTimeoutChecker s else s)
          in
            if length (msg_body msg) = 0 then resolve pendingRequest None s
            else
              case schema s (req_method pendingRequest) of
                None \<Rightarrow>
                  reject pendingRequest
                    \<lparr>err_code = INVALID_REQUEST_code, err_message = TypeError_message,
                     err_id = msg_id msg, err_errorMessage = []\<rparr> s
              | Some d \<Rightarrow>
                  (case Res d of
                     None \<Rightarrow> resolve pendingRequest None s
                   | Some ResCtor \<Rightarrow>
                       (case unpackFB ResCtor (msg_body msg) of
                          Inr res \<Rightarrow> resolve pendingRequest (Some res) s
                        | Inl e \<Rightarrow>
                            reject pendingRequest
                              \<lparr>err_code = INVALID_REQUEST_code, err_message = Error_message e,
                               err_id = msg_id msg, err_errorMessage = []\<rparr> s)))"

definition handleErrorResponse :: "('t, 'a) FbRpc \<Rightarrow> DecodedMessage \<Rightarrow> ('t, 'a) FbRpc" where
  "handleErrorResponse s msg =
     (case Map_get (pendingRequests s) (msg_id msg) of
        None \<Rightarrow> s
      | Some pendingRequest \<Rightarrow>
          let s = s\<lparr>pendingRequests := Map_delete (pendingRequests s) (msg_id msg)\<rparr>;
              s = (if Map_size (pendingRequests s) = 0 then stopTimeoutChecker s else s)
          in
            case decodeErrorResponse (msg_body msg) of
              (code, message) \<Rightarrow>
                reject pendingRequest
                  \<lparr>err_code = code, err_message = message, err_id = msg_id msg,
                   err_errorMessage = []\<rparr> s)"

definition fromTransport :: "('t, 'a) FbRpc \<Rightarrow> Uint8Array \<Rightarrow> 'a \<Rightarrow> ('t, 'a) FbRpc" where
  "fromTransport s data appData =
     (case decodeMessage data of
        Inl e \<Rightarrow>
          callToTransport s
            (encodeErrorResponse (-1) PARSE_ERROR_code PARSE_ERROR_message) appData
      | Inr msg \<Rightarrow>
          if msg_type msg = 0 \<or> msg_type msg = 1 then handleRequest s msg appData
          else if msg_type msg = 2 then handleResponse s msg
          else if msg_type msg = 3 then handleErrorResponse s msg
          else s)"

subsection \<open>Teardown\<close>

definition rejectPendingRequests :: "('t, 'a) FbRpc \<Rightarrow> FbRpcError \<Rightarrow> ('t, 'a) FbRpc" where
  "rejectPendingRequests s error =
     (let s = fold (\<lambda>request s. reject request error s) (Map_values (pendingRequests s)) s;
          s = s\<lparr>pendingRequests := []\<rparr>
      in stopTimeoutChecker s)"

definition clear_guards :: "nat \<Rightarrow> ('t, 'a) FbRpc \<Rightarrow> ('t, 'a) FbRpc" where
  "clear_guards r s =
     (if r < length (entries s) then s\<lparr>entries := (entries s)[r := (entries s ! r)\<lparr>guards := []\<rparr>]\<rparr>
      else s)"

definition resetDispatcher :: "('t, 'a) FbRpc \<Rightarrow> ('t, 'a) FbRpc" where
  "resetDispatcher s =
     (let s = fold clear_guards (Map_values (dispatcher s)) s
      in s\<lparr>dispatcher := []\<rparr>)"

definition clean :: "('t, 'a) FbRpc \<Rightarrow> js_string \<Rightarrow> ('t, 'a) FbRpc" where
  "clean s reason =
     (let s = rejectPendingRequests s
                \<lparr>err_code = INTERNAL_ERROR_code, err_message = INTERNAL_ERROR_message,
                 err_id = -1, err_errorMessage = reason\<rparr>;
          s = resetDispatcher s;
          s = stopTimeoutChecker s
      in s\<lparr>toTransport := None\<rparr>)"

subsection \<open>Runs of a peer\<close>

text \<open>
  What can happen to a peer: a call of one of its methods, a tick of the timeout checker,
  or the settling of a promise that a handler returned.
\<close>

datatype ('t, 'a) action =
    RegisterToTransportCallback nat
  | RegisterHandler int "('t, 'a) AnyFunction"
  | AddGuard DispatcherHandler GuardType "('t, 'a) AnyFunction"
  | Request int FBPackable 'a double
  | Notify int FBPackable 'a
  | FromTransport Uint8Array 'a
  | Clean js_string
  | Tick double
  | Fulfilled int int bool 'a "FBPackable option"
  | Rejected int 'a Error

fun exec :: "('t, 'a) action \<Rightarrow> ('t, 'a) FbRpc \<Rightarrow> ('t, 'a) FbRpc" where
  "exec (RegisterToTransportCallback cb) s = registerToTransportCallback s cb"
| "exec (RegisterHandler m f) s = (case registerHandler s m f of None \<Rightarrow> s | Some (s', h) \<Rightarrow> s')"
| "exec (AddGuard h ty f) s = push_guard s h \<lparr>guard_type = ty, guard_fn = f\<rparr>"
| "exec (Request m req appData now) s = request s m req appData now"
| "exec (Notify m req appData) s = notify s m req appData"
| "exec (FromTransport data appData) s = fromTransport s data appData"
| "exec (Clean reason) s = clean s reason"
| "exec (Tick now) s = tick s now"
| "exec (Fulfilled i m hasRes appData res) s = then_callback s i m hasRes appData res"
| "exec (Rejected i appData e) s = catch_callback s i appData e"

definition run :: "('t, 'a) action list \<Rightarrow> ('t, 'a) FbRpc \<Rightarrow> ('t, 'a) FbRpc" where
  "run acts s = fold exec acts s"

text \<open>The timeout checker runs exactly when a request is pending.\<close>

definition checker_inv :: "('t, 'a) FbRpc \<Rightarrow> bool" where
  "checker_inv s = ((timeoutCheckInterval s \<noteq> None) = (pendingRequests s \<noteq> []))"

text \<open>The twelve header bytes that \<open>encodeMessage\<close> writes in front of the body.\<close>

definition header :: "int \<Rightarrow> int \<Rightarrow> int \<Rightarrow> int \<Rightarrow> Uint8Array" where
  "header t i m n =
     [ToUint8 t, 0, ToUint8 m, ToUint8 (js_sar m 8),
      ToUint8 i, ToUint8 (js_sar i 8), ToUint8 (js_sar i 16), ToUint8 (js_sar i 24),
      ToUint8 n, ToUint8 (js_sar n 8), ToUint8 (js_sar n 16), ToUint8 (js_sar n 24)]"

text \<open>
  What every peer satisfies: the keys of its two maps are distinct, and every dispatcher
  value denotes an entry of the store.
\<close>

definition well_formed_peer :: "('t, 'a) FbRpc \<Rightarrow> bool" where
  "well_formed_peer s =
     (distinct (map fst (pendingRequests s)) \<and> distinct (map fst (dispatcher s)) \<and>
      list_all (\<lambda>(m, r). r < length (entries s)) (dispatcher s))"

text \<open>The body that \<open>encodeErrorResponse\<close> builds: the code, then the message in UTF-8.\<close>

definition error_body :: "int \<Rightarrow> js_string \<Rightarrow> Uint8Array" where
  "error_body c message =
     ToUint8 c # ToUint8 (js_sar c 8) # ToUint8 (js_sar c 16) # ToUint8 (js_sar c 24) #
     TextEncoder_encode message"

text \<open>A Unicode scalar value: a code point that is not a surrogate.\<close>

definition is_scalar :: "nat \<Rightarrow> bool" where
  "is_scalar c = (c < 0x110000 \<and> \<not> (0xD800 \<le> c \<and> c \<le> 0xDFFF))"

subsection \<open>Example peers\<close>

text \<open>
  A schema with a method 0 that has a response and a void method 3; tables are read as
  the length of their buffer. The handler of method 0 has a request guard that passes and an
  application-data guard that throws for the session 0.
\<close>

definition example_schema :: "int \<Rightarrow> nat MethodDef option" where
  "example_schema m =
     (if m = 0 then
        Some \<lparr>Req = (\<lambda>i bytes. Inr (length bytes)), Res = Some (\<lambda>i bytes. Inr (length bytes))\<rparr>
      else if m = 3 then Some \<lparr>Req = (\<lambda>i bytes. Inr (length bytes)), Res = None\<rparr>
      else None)"

definition example_error :: Error where
  "example_error =
     \<lparr>Error_message = js_str ''denied'', Error_toString = js_str ''Error: denied''\<rparr>"

definition example_handler :: "(nat, nat) AnyFunction" where
  "example_handler args = Return Undefined"

definition passing_guard :: "(nat, nat) AnyFunction" where
  "passing_guard args = Return Undefined"

definition session_guard :: "(nat, nat) AnyFunction" where
  "session_guard args = (if args = [AppDataArg 0] then Throw example_error else Return Undefined)"

definition example_entry :: "(nat, nat) HandlerEntry" where
  "example_entry = \<lparr>Req = (\<lambda>i bytes. Inr (length bytes)), Res = Some (\<lambda>i bytes. Inr (length bytes)),
        fn = example_handler,
        guards = [\<lparr>guard_type = RequestGuard, guard_fn = passing_guard\<rparr>,
                  \<lparr>guard_type = AppDataGuard, guard_fn = session_guard\<rparr>]\<rparr>"

definition fresh_peer :: "(nat, nat) FbRpc" where
  "fresh_peer =
     FbRpc_new 0 example_schema \<lparr>opt_requestTimeout = None, opt_builderInitialSize = None\<rparr>"

definition guarded_peer :: "(nat, nat) FbRpc" where
  "guarded_peer =
     run [RegisterHandler 0 example_handler,
          AddGuard (DispatcherHandler 0) RequestGuard passing_guard,
          AddGuard (DispatcherHandler 0) AppDataGuard session_guard] fresh_peer"

definition example_peer :: "(nat, nat) FbRpc" where
  "example_peer =
     run [RegisterToTransportCallback 1, Request 0 [1] 7 (double_of_int 10),
          Request 3 [] 7 (double_of_int 20)] guarded_peer"

section \<open>The codec round trips\<close>

lemma ToInt32_eq: "ToInt32 v = signed_take_bit 31 v"
  by (simp add: ToInt32_def sint_sbintrunc')

lemma ToUint32_eq: "ToUint32 v = take_bit 32 v"
  by (simp add: ToUint32_def uint_word_of_int_eq)

lemma uint_ToUint8: "uint (ToUint8 v) = take_bit 8 v"
  by (simp add: ToUint8_def uint_word_of_int_eq)

lemma ToUint32_ToInt32: "ToUint32 (ToInt32 v) = take_bit 32 v"
  by (simp add: ToUint32_eq ToInt32_eq take_bit_signed_take_bit)

lemma bytes32:
  "js_or (js_or (js_or (uint (ToUint8 v)) (js_shl (uint (ToUint8 (js_sar v 8))) 8))
                (js_shl (uint (ToUint8 (js_sar v 16))) 16))
         (js_shl (uint (ToUint8 (js_sar v 24))) 24) = ToInt32 v" (is "?L = ?R")
proof (rule bit_eqI)
  fix n :: nat
  consider "n < 8" | "8 \<le> n" "n < 16" | "16 \<le> n" "n < 24" | "24 \<le> n" "n < 31" | "31 \<le> n"
    by linarith
  then show "bit ?L n = bit ?R n"
    unfolding js_or_def js_shl_def js_sar_def uint_ToUint8 ToInt32_eq
    by cases (auto simp: bit_simps min_def)
qed

lemma bytes16:
  "js_or (uint (ToUint8 v)) (js_shl (uint (ToUint8 (js_sar v 8))) 8) = take_bit 16 v"
  unfolding js_or_def js_shl_def js_sar_def uint_ToUint8 ToInt32_eq
  by (rule bit_eqI) (auto simp: bit_simps min_def not_less not_le)

lemma replicate12: "replicate (12 + n) x = x # x # x # x # x # x # x # x # x # x # x # x # replicate n x"
  by (simp add: replicate_add eval_nat_numeral)

lemma encodeMessage_layout:
  "encodeMessage t i m body = header t i m (int (length body)) @ body"
  by (simp add: encodeMessage_def header_def HEADER_SIZE_def Let_def write16_def write32_def
        Uint8Array_set_def replicate12 eval_nat_numeral)

lemma length_header: "length (header t i m n) = 12"
  by (simp add: header_def)

lemma header_type: "elem (header t i m n @ rest) 0 = take_bit 8 t"
  by (simp add: header_def elem_def uint_ToUint8)

lemma header_method: "read16 (header t i m n @ rest) 2 = take_bit 16 m"
  using bytes16 [of m] by (simp add: header_def elem_def read16_def)

lemma header_id: "read32 (header t i m n @ rest) 4 = take_bit 32 i"
  using bytes32 [of i]
  by (simp add: header_def elem_def read32_def readI32_def js_ushr0_def ToUint32_ToInt32)

lemma header_bodyLen: "read32 (header t i m n @ rest) 8 = take_bit 32 n"
  using bytes32 [of n]
  by (simp add: header_def elem_def read32_def readI32_def js_ushr0_def ToUint32_ToInt32)

lemma header_body: "subarray (header t i m n @ rest) 12 (12 + k) = take k rest"
  by (simp add: subarray_def length_header drop_take)

lemma decode_header:
  "decodeMessage (header t i m n @ rest) =
     (if int (length rest) < take_bit 32 n then
        Inl \<lparr>err_code = PARSE_ERROR_code, err_message = PARSE_ERROR_message,
             err_id = -1, err_errorMessage = js_str ''Incomplete message''\<rparr>
      else Inr \<lparr>msg_type = take_bit 8 t, msg_id = take_bit 32 i, msg_method = take_bit 16 m,
                msg_body = take (nat (take_bit 32 n)) rest\<rparr>)"
  by (simp add: decodeMessage_def Let_def HEADER_SIZE_def length_header header_type
        header_method header_id header_bodyLen header_body)

lemma ToUint8_take_bit: "8 \<le> k \<Longrightarrow> ToUint8 (take_bit k v) = ToUint8 v"
  unfolding ToUint8_def by (rule bit_word_eqI) (simp add: bit_simps)

lemma ToUint8_js_sar_take_bit:
  "k + 8 \<le> w \<Longrightarrow> w \<le> 32 \<Longrightarrow> ToUint8 (js_sar (take_bit w v) k) = ToUint8 (js_sar v k)"
  unfolding ToUint8_def js_sar_def ToInt32_eq
  by (rule bit_word_eqI) (auto simp: bit_simps)

lemma header_take_bit:
  "header (take_bit 8 t) (take_bit 32 i) (take_bit 16 m) n = header t i m n"
  by (simp add: header_def ToUint8_take_bit ToUint8_js_sar_take_bit)

lemma decode_encode:
  "decodeMessage (encodeMessage t i m body) =
     (if int (length body) < take_bit 32 (int (length body)) then
        Inl \<lparr>err_code = PARSE_ERROR_code, err_message = PARSE_ERROR_message,
             err_id = -1, err_errorMessage = js_str ''Incomplete message''\<rparr>
      else Inr \<lparr>msg_type = take_bit 8 t, msg_id = take_bit 32 i, msg_method = take_bit 16 m,
             msg_body = take (nat (take_bit 32 (int (length body)))) body\<rparr>)"
  by (simp only: encodeMessage_layout decode_header)

lemma take_bit_length:
  "length (body :: Uint8Array) < 2 ^ 32 \<Longrightarrow> take_bit 32 (int (length body)) = int (length body)"
  by (simp add: take_bit_int_eq_self)

text \<open>
  Claim C1, amended. For every body of fewer than \<open>2^32\<close> bytes: (1) for every message type
  in \<open>{0,1,2,3}\<close>, every correlation id below \<open>2^32\<close> and every method id below \<open>2^16\<close>,
  \<open>decodeMessage (encodeMessage type id method body)\<close> returns exactly that type, id and
  method and a body equal to the input body; (2) whatever numbers were given to
  \<open>encodeMessage\<close>, the frame decodes, and encoding the four decoded fields again gives the
  same frame, byte for byte. The bound on the body is needed: the length field has 32 bits.
\<close>

theorem encodeMessage_decodeMessage_roundtrip:
  assumes "length body < 2 ^ 32"
  shows "(t \<in> {0, 1, 2, 3} \<and> 0 \<le> i \<and> i < 2 ^ 32 \<and> 0 \<le> m \<and> m < 2 ^ 16 \<longrightarrow>
           decodeMessage (encodeMessage t i m body) =
             Inr \<lparr>msg_type = t, msg_id = i, msg_method = m, msg_body = body\<rparr>) \<and>
         (\<exists>d. decodeMessage (encodeMessage t i m body) = Inr d \<and>
              encodeMessage (msg_type d) (msg_id d) (msg_method d) (msg_body d) =
                encodeMessage t i m body)"
proof -
  have len: "take_bit 32 (int (length body)) = int (length body)"
    using assms by (rule take_bit_length)
  have dec: "decodeMessage (encodeMessage t i m body) =
      Inr \<lparr>msg_type = take_bit 8 t, msg_id = take_bit 32 i, msg_method = take_bit 16 m,
           msg_body = body\<rparr>"
    by (simp add: decode_encode len)
  have fwd: "decodeMessage (encodeMessage t i m body) =
      Inr \<lparr>msg_type = t, msg_id = i, msg_method = m, msg_body = body\<rparr>"
    if "t \<in> {0, 1, 2, 3}" "0 \<le> i" "i < 2 ^ 32" "0 \<le> m" "m < 2 ^ 16"
  proof -
    have "take_bit 8 t = t" using that(1) by auto
    moreover have "take_bit 32 i = i" using that(2,3) by (simp add: take_bit_int_eq_self)
    moreover have "take_bit 16 m = m" using that(4,5) by (simp add: take_bit_int_eq_self)
    ultimately show ?thesis by (simp add: dec)
  qed
  have re: "encodeMessage (take_bit 8 t) (take_bit 32 i) (take_bit 16 m) body =
      encodeMessage t i m body"
    by (simp add: encodeMessage_layout header_take_bit)
  show ?thesis
    using fwd re by (auto simp: dec)
qed

text \<open>A Response frame with a three-byte body.\<close>

theorem encodeMessage_decodeMessage_roundtrip_witness:
  "decodeMessage (encodeMessage 2 7 515 [1, 2, 3]) =
     Inr \<lparr>msg_type = 2, msg_id = 7, msg_method = 515, msg_body = [1, 2, 3]\<rparr>"
  using encodeMessage_decodeMessage_roundtrip [of "[1, 2, 3]" 2 7 515] by simp

text \<open>
  Claim C1 as stated ("every body byte sequence") fails on a body of \<open>2^32\<close> bytes: the
  length field wraps to 0 and the decoded body is empty.
\<close>

theorem encodeMessage_decodeMessage_oversized_body:
  "decodeMessage (encodeMessage 0 0 0 (replicate (2 ^ 32) 0)) =
     Inr \<lparr>msg_type = 0, msg_id = 0, msg_method = 0, msg_body = []\<rparr> \<and>
   replicate (2 ^ 32) (0 :: byte) \<noteq> []"
  by (simp add: decode_encode)

section \<open>The peer: facts about frames\<close>

lemma take_bit_read32: "take_bit 32 (read32 buf off) = read32 buf off"
  by (simp add: read32_def js_ushr0_def ToUint32_eq)

lemma decodeMessage_id: "decodeMessage data = Inr msg \<Longrightarrow> take_bit 32 (msg_id msg) = msg_id msg"
  by (auto simp: decodeMessage_def Let_def take_bit_read32 split: if_splits)

lemma replicate4: "replicate (4 + n) x = x # x # x # x # replicate n x"
  by (simp add: replicate_add eval_nat_numeral)

lemma encodeErrorResponse_layout:
  "encodeErrorResponse i c message =
     header 3 i 0 (int (4 + length (TextEncoder_encode message))) @ error_body c message"
  by (simp add: encodeErrorResponse_def Let_def encodeMessage_layout write32_def
      Uint8Array_set_def replicate4 error_body_def eval_nat_numeral)

lemma readI32_error_body: "readI32 (error_body c message @ rest) 0 = ToInt32 c"
  using bytes32 [of c] by (simp add: error_body_def readI32_def elem_def)

lemma elem_append: "elem (pre @ buf) (length pre + k) = elem buf k"
  by (simp add: elem_def)

lemma readI32_append: "readI32 (pre @ buf) (length pre + k) = readI32 buf k"
  by (simp only: readI32_def elem_append add.assoc)

lemma readI32_drop: "readI32 (pre @ buf) (length pre) = readI32 buf 0"
  using readI32_append [of pre buf 0] by simp

lemma error_frame_type: "elem (encodeErrorResponse i c message) 0 = 3"
  by (simp add: encodeErrorResponse_layout header_type)

lemma error_frame_method: "read16 (encodeErrorResponse i c message) 2 = 0"
  by (simp add: encodeErrorResponse_layout header_method)

lemma error_frame_id: "read32 (encodeErrorResponse i c message) 4 = take_bit 32 i"
  by (simp add: encodeErrorResponse_layout header_id)

lemma error_frame_code: "readI32 (encodeErrorResponse i c message) 12 = ToInt32 c"
  using readI32_drop [of "header 3 i 0 (int (4 + length (TextEncoder_encode message)))"
      "error_body c message"] readI32_error_body [of c message "[]"]
  by (simp add: encodeErrorResponse_layout length_header)

lemma decodeMessage_fails:
  "length data < 12 \<or> int (length data) - 12 < read32 data 8 \<Longrightarrow> \<exists>e. decodeMessage data = Inl e"
  by (auto simp: decodeMessage_def HEADER_SIZE_def Let_def)

text \<open>
  Claim C7. When the input is shorter than 12 bytes, or its declared body length exceeds
  the bytes that follow the header, \<open>fromTransport\<close> hands exactly one frame to the
  transport callback if one is set, and does nothing otherwise. The frame is the
  ErrorResponse (type 3) with code 1000, the id field \<open>2^32 - 1\<close> (\<open>-1\<close> stored unsigned)
  and the method field 0. The pending table, the dispatcher and the handler entries are
  unchanged.
\<close>

theorem parse_error_path:
  assumes "length data < 12 \<or> int (length data) - 12 < read32 data 8"
  shows "let frame = encodeErrorResponse (-1) PARSE_ERROR_code PARSE_ERROR_message;
             s' = fromTransport s data appData
         in s' = (case toTransport s of
                    Some cb \<Rightarrow> s\<lparr>trace := trace s @ [ToTransport cb frame appData]\<rparr>
                  | None \<Rightarrow> s) \<and>
            pendingRequests s' = pendingRequests s \<and> dispatcher s' = dispatcher s \<and>
            entries s' = entries s \<and>
            elem frame 0 = 3 \<and> read16 frame 2 = 0 \<and> read32 frame 4 = 2 ^ 32 - 1 \<and>
            readI32 frame 12 = 1000"
proof -
  obtain e where "decodeMessage data = Inl e"
    using decodeMessage_fails [OF assms] by blast
  then have "fromTransport s data appData =
      callToTransport s (encodeErrorResponse (-1) PARSE_ERROR_code PARSE_ERROR_message) appData"
    by (simp add: fromTransport_def)
  moreover have "ToInt32 1000 = 1000" "take_bit 32 (-1 :: int) = 2 ^ 32 - 1"
    by (simp_all add: ToInt32_eq mask_eq_exp_minus_1)
  ultimately show ?thesis
    by (simp add: Let_def callToTransport_def error_frame_type error_frame_method error_frame_id
        error_frame_code PARSE_ERROR_code_def split: option.split)
qed

text \<open>
  Claim C10. A frame that decodes but whose type byte is none of 0, 1, 2, 3 leaves the
  peer as it was: nothing is sent and no field changes.
\<close>

theorem unknown_type_ignored:
  assumes "decodeMessage data = Inr msg" and "msg_type msg \<notin> {0, 1, 2, 3}"
  shows "fromTransport s data appData = s"
  using assms by (simp add: fromTransport_def)

text \<open>
  Claim C6, amended. For an inbound frame whose method has no registered handler: a Request
  makes the peer hand exactly one frame to the transport callback when one is registered,
  the ErrorResponse with the request's id and code 1002, and nothing is sent when no
  callback is registered; a Notification leaves the peer unchanged, so nothing is sent.
\<close>

theorem unknown_method:
  assumes "decodeMessage data = Inr msg" and "Map_get (dispatcher s) (msg_method msg) = None"
  shows "(msg_type msg = 0 \<longrightarrow>
           (let frame = encodeErrorResponse (msg_id msg) METHOD_NOT_FOUND_code METHOD_NOT_FOUND_message
            in fromTransport s data appData =
                 (case toTransport s of
                    Some cb \<Rightarrow> s\<lparr>trace := trace s @ [ToTransport cb frame appData]\<rparr>
                  | None \<Rightarrow> s) \<and>
               elem frame 0 = 3 \<and> read32 frame 4 = msg_id msg \<and> readI32 frame 12 = 1002)) \<and>
         (msg_type msg = 1 \<longrightarrow> fromTransport s data appData = s)"
proof -
  have "ToInt32 1002 = 1002" by (simp add: ToInt32_eq)
  then show ?thesis
    using assms decodeMessage_id [OF assms(1)]
    by (simp add: fromTransport_def handleRequest_def Let_def callToTransport_def
        error_frame_type error_frame_id error_frame_code METHOD_NOT_FOUND_code_def
        split: option.split)
qed


section \<open>Double precision\<close>

text \<open>
  Rounding to 53 significant bits is monotone and leaves a number of at most 53 significant
  bits as it is. So a difference \<open>now - t\<close> does not increase with \<open>t\<close>, and
  the differences of integers below \<open>2^53\<close> are exact.
\<close>

declare bit_length.simps [simp del]

lemma bit_length_0 [simp]: "bit_length 0 = 0"
  by (simp add: bit_length.simps)

lemma bit_length_pos: "0 < n \<Longrightarrow> bit_length n = Suc (bit_length (n div 2))"
  by (subst bit_length.simps) simp

lemma bit_length_upper: "n < 2 ^ bit_length n"
proof (induction n rule: bit_length.induct)
  case (1 n)
  show ?case
  proof (cases "n = 0")
    case True
    then show ?thesis by simp
  next
    case False
    with 1 have "n div 2 < 2 ^ bit_length (n div 2)" by simp
    then have "n < 2 * 2 ^ bit_length (n div 2)" by linarith
    with False show ?thesis by (simp add: bit_length_pos)
  qed
qed

lemma bit_length_lower: "0 < n \<Longrightarrow> 2 ^ (bit_length n - 1) \<le> n"
proof (induction n rule: bit_length.induct)
  case (1 n)
  show ?case
  proof (cases "n div 2 = 0")
    case True
    with 1(2) show ?thesis by (simp add: bit_length_pos)
  next
    case False
    then have h: "0 < n div 2" by simp
    with 1 have "2 ^ (bit_length (n div 2) - 1) \<le> n div 2" by simp
    then have "2 * 2 ^ (bit_length (n div 2) - 1) \<le> n" by linarith
    moreover have "bit_length (n div 2) = Suc (bit_length (n div 2) - 1)"
      using h by (simp add: bit_length_pos)
    ultimately have "2 ^ bit_length (n div 2) \<le> n"
      by (metis power_Suc)
    with 1(2) show ?thesis by (simp add: bit_length_pos)
  qed
qed

lemma bit_length_eqI:
  assumes "2 ^ k \<le> n" and "n < 2 ^ Suc k"
  shows "bit_length n = Suc k"
proof -
  have pos: "0 < n" using assms(1) by (metis gr0I not_less zero_less_numeral zero_less_power)
  have "(2::nat) ^ (bit_length n - 1) < 2 ^ Suc k"
    using bit_length_lower [OF pos] assms(2) by linarith
  then have a: "bit_length n - 1 < Suc k"
    by (rule power_less_imp_less_exp [rotated]) simp
  have "(2::nat) ^ k < 2 ^ bit_length n"
    using bit_length_upper [of n] assms(1) by linarith
  then have b: "k < bit_length n"
    by (rule power_less_imp_less_exp [rotated]) simp
  from a b show ?thesis by linarith
qed

lemma bit_length_mono: "m \<le> n \<Longrightarrow> bit_length m \<le> bit_length n"
proof (cases "m = 0")
  case True
  then show ?thesis by simp
next
  case False
  assume "m \<le> n"
  with False have "(2::nat) ^ (bit_length m - 1) < 2 ^ bit_length n"
    using bit_length_lower [of m] bit_length_upper [of n] by linarith
  then have "bit_length m - 1 < bit_length n"
    by (rule power_less_imp_less_exp [rotated]) simp
  then show ?thesis by linarith
qed

lemma bit_length_shift: "0 < c \<Longrightarrow> bit_length (c * 2 ^ j) = bit_length c + j"
proof -
  assume c: "0 < c"
  then obtain k where k: "bit_length c = Suc k"
    by (auto simp: bit_length_pos)
  have "2 ^ k \<le> c" using bit_length_lower [OF c] k by simp
  then have 1: "2 ^ (k + j) \<le> c * 2 ^ j" by (simp add: power_add)
  have "c < 2 ^ Suc k" using bit_length_upper [of c] k by simp
  then have 2: "c * 2 ^ j < 2 ^ Suc (k + j)"
    by (simp add: power_add)
  show ?thesis
    using bit_length_eqI [OF 1 2] k by simp
qed

lemma round_half_even_le: "round_half_even n s \<le> Suc (n div 2 ^ s)"
  by (simp add: round_half_even_def Let_def)

lemma round_half_even_ge: "n div 2 ^ s \<le> round_half_even n s"
  by (simp add: round_half_even_def Let_def)

lemma round_half_even_mono:
  assumes "n \<le> m"
  shows "round_half_even n s \<le> round_half_even m s"
proof -
  have q: "n div 2 ^ s \<le> m div 2 ^ s" using assms by (rule div_le_mono)
  show ?thesis
  proof (cases "n div 2 ^ s = m div 2 ^ s")
    case True
    have "n div 2 ^ s * 2 ^ s + n mod 2 ^ s \<le> m div 2 ^ s * 2 ^ s + m mod 2 ^ s"
      using assms by (simp only: div_mult_mod_eq)
    with True have "n mod 2 ^ s \<le> m mod 2 ^ s"
      by simp
    with True show ?thesis
      by (auto simp: round_half_even_def Let_def)
  next
    case False
    with q have "Suc (n div 2 ^ s) \<le> m div 2 ^ s" by simp
    with round_half_even_le [of n s] round_half_even_ge [of m s] show ?thesis
      by linarith
  qed
qed

lemma round_half_even_exact: "round_half_even (c * 2 ^ s) s = c"
  by (simp add: round_half_even_def)

lemma round_nat_exact:
  assumes "c < 2 ^ 53"
  shows "round_nat (c * 2 ^ j) = c * 2 ^ j"
proof (cases "c = 0")
  case True
  then show ?thesis by (simp add: round_nat_def round_half_even_def)
next
  case False
  then have b: "bit_length (c * 2 ^ j) = bit_length c + j"
    by (simp add: bit_length_shift)
  have "bit_length c \<le> 53"
  proof (rule ccontr)
    assume "\<not> bit_length c \<le> 53"
    then have "53 \<le> bit_length c - 1" by simp
    then have "(2::nat) ^ 53 \<le> 2 ^ (bit_length c - 1)"
      by (rule power_increasing) simp
    with bit_length_lower [of c] False assms show False by simp
  qed
  then have sj: "bit_length c + j - 53 \<le> j" by simp
  define s where "s = bit_length c + j - 53"
  define d where "d = j - s"
  have "j = d + s" using sj by (simp add: s_def d_def)
  then have eq: "c * 2 ^ j = (c * 2 ^ d) * 2 ^ s"
    by (simp add: power_add)
  have "round_nat (c * 2 ^ j) = round_half_even (c * 2 ^ j) s * 2 ^ s"
    by (simp add: round_nat_def b Let_def s_def)
  also have "\<dots> = round_half_even ((c * 2 ^ d) * 2 ^ s) s * 2 ^ s"
    by (simp only: eq)
  also have "\<dots> = (c * 2 ^ d) * 2 ^ s"
    by (simp only: round_half_even_exact)
  finally show ?thesis by (simp only: eq)
qed


lemma round_nat_0 [simp]: "round_nat 0 = 0"
  by (simp add: round_nat_def round_half_even_def)

lemma round_nat_le_power: "round_nat n \<le> 2 ^ bit_length n"
proof -
  define k s where "k = bit_length n" and "s = bit_length n - 53"
  have sk: "s \<le> k" by (simp add: k_def s_def)
  have "round_half_even n s \<le> round_half_even (2 ^ (k - s) * 2 ^ s) s"
  proof (rule round_half_even_mono)
    have "n \<le> 2 ^ k" using bit_length_upper [of n] by (simp add: k_def)
    also have "\<dots> = 2 ^ (k - s) * 2 ^ s"
      using sk by (simp add: power_add [symmetric])
    finally show "n \<le> 2 ^ (k - s) * 2 ^ s" .
  qed
  then have "round_half_even n s \<le> 2 ^ (k - s)"
    by (simp only: round_half_even_exact)
  then have "round_half_even n s * 2 ^ s \<le> 2 ^ (k - s) * 2 ^ s"
    by simp
  also have "\<dots> = 2 ^ k" using sk by (simp add: power_add [symmetric])
  finally show ?thesis
    by (simp add: round_nat_def Let_def k_def s_def)
qed

lemma round_nat_ge_power:
  assumes "0 < n"
  shows "2 ^ (bit_length n - 1) \<le> round_nat n"
proof -
  define k s where "k = bit_length n - 1" and "s = bit_length n - 53"
  have sk: "s \<le> k" by (simp add: k_def s_def)
  have "round_half_even (2 ^ (k - s) * 2 ^ s) s \<le> round_half_even n s"
  proof (rule round_half_even_mono)
    have "(2::nat) ^ (k - s) * 2 ^ s = 2 ^ k"
      using sk by (simp add: power_add [symmetric])
    also have "\<dots> \<le> n" using bit_length_lower [OF assms] by (simp add: k_def)
    finally show "2 ^ (k - s) * 2 ^ s \<le> n" .
  qed
  then have "2 ^ (k - s) \<le> round_half_even n s"
    by (simp only: round_half_even_exact)
  then have "2 ^ (k - s) * 2 ^ s \<le> round_half_even n s * 2 ^ s"
    by simp
  moreover have "(2::nat) ^ (k - s) * 2 ^ s = 2 ^ k"
    using sk by (simp add: power_add [symmetric])
  ultimately have "2 ^ k \<le> round_half_even n s * 2 ^ s"
    by (simp only:)
  then show ?thesis
    unfolding round_nat_def Let_def k_def s_def .
qed

lemma round_nat_mono:
  assumes "n \<le> m"
  shows "round_nat n \<le> round_nat m"
proof (cases "bit_length n = bit_length m")
  case True
  then show ?thesis
    using round_half_even_mono [OF assms, of "bit_length m - 53"]
    by (simp add: round_nat_def Let_def)
next
  case False
  with bit_length_mono [OF assms] have lt: "bit_length n < bit_length m" by simp
  then have pos: "0 < m" by (cases "m = 0") simp_all
  have "round_nat n \<le> 2 ^ bit_length n" by (rule round_nat_le_power)
  also have "\<dots> \<le> 2 ^ (bit_length m - 1)"
    using lt by (intro power_increasing) simp_all
  also have "\<dots> \<le> round_nat m" by (rule round_nat_ge_power [OF pos])
  finally show ?thesis .
qed

lemma double_round_not_NaN [simp]: "double_round x \<noteq> NaN"
  by (simp add: double_round_def Let_def)

lemma double_le_refl: "a \<noteq> NaN \<Longrightarrow> double_le a a"
  by (cases a) simp_all

lemma double_le_trans: "double_le a b \<Longrightarrow> double_le b c \<Longrightarrow> double_le a c"
  by (cases a; cases b; cases c) simp_all

lemma double_round_mono:
  assumes "x \<le> y"
  shows "double_le (double_round x) (double_round y)"
proof -
  consider "0 \<le> x" | "y \<le> 0" "x < 0" | "x < 0" "0 < y" by linarith
  then show ?thesis
  proof cases
    case 1
    with assms have "nat \<bar>x\<bar> \<le> nat \<bar>y\<bar>" by simp
    then have "round_nat (nat \<bar>x\<bar>) \<le> round_nat (nat \<bar>y\<bar>)" by (rule round_nat_mono)
    with 1 assms show ?thesis
      by (auto simp: double_round_def Let_def sgn_if)
  next
    case 2
    with assms have "nat \<bar>y\<bar> \<le> nat \<bar>x\<bar>" by simp
    then have "round_nat (nat \<bar>y\<bar>) \<le> round_nat (nat \<bar>x\<bar>)" by (rule round_nat_mono)
    with 2 show ?thesis
      by (auto simp: double_round_def Let_def sgn_if)
  next
    case 3
    then show ?thesis
      by (auto simp: double_round_def Let_def sgn_if)
  qed
qed

lemma double_sub_not_NaN:
  "is_finite a \<Longrightarrow> b \<noteq> NaN \<Longrightarrow> double_sub a b \<noteq> NaN"
  by (cases a; cases b) (simp_all add: is_finite_def)

lemma double_sub_antimono:
  assumes "is_finite now" and "double_le t t'"
  shows "double_le (double_sub now t') (double_sub now t)"
proof -
  from assms(1) obtain n where n: "now = Finite n" by (cases now) (simp_all add: is_finite_def)
  show ?thesis
  proof (cases t)
    case (Finite a)
    show ?thesis
    proof (cases t')
      case (Finite b)
      with \<open>t = Finite a\<close> assms(2) have "n - b \<le> n - a" by simp
      then show ?thesis
        using double_round_mono [of "n - b" "n - a"] by (simp add: n Finite \<open>t = Finite a\<close>)
    next
      case PosInf
      have "double_round (n - a) \<noteq> NaN" by simp
      then show ?thesis
        by (cases "double_round (n - a)") (simp_all add: n PosInf \<open>t = Finite a\<close>)
    qed (use assms(2) \<open>t = Finite a\<close> in simp_all)
  next
    case PosInf
    with assms(2) show ?thesis by (cases t') (simp_all add: n)
  next
    case NegInf
    have "double_sub now t' \<noteq> NaN"
      using assms by (intro double_sub_not_NaN) (auto simp: NegInf)
    then show ?thesis
      by (cases "double_sub now t'") (simp_all add: n NegInf)
  next
    case NaN
    with assms(2) show ?thesis by simp
  qed
qed

lemma expired_mono:
  assumes "is_finite now" and "double_le t t'"
    and "double_ge (double_sub now t') timeout"
  shows "double_ge (double_sub now t) timeout"
  using double_le_trans [OF assms(3) [unfolded double_ge_def] double_sub_antimono [OF assms(1,2)]]
  by (simp add: double_ge_def)

lemma double_round_exact:
  assumes "\<bar>c\<bar> < 2 ^ 53" and "j \<le> 1074"
  shows "double_round (c * 2 ^ j) = Finite (c * 2 ^ j)"
proof -
  have n: "nat \<bar>c * 2 ^ j\<bar> = nat \<bar>c\<bar> * 2 ^ j"
    by (simp add: abs_mult nat_mult_distrib nat_power_eq)
  have c: "nat \<bar>c\<bar> < 2 ^ 53" using assms(1) by (simp add: nat_less_iff)
  have r: "round_nat (nat \<bar>c * 2 ^ j\<bar>) = nat \<bar>c * 2 ^ j\<bar>"
    unfolding n using c by (rule round_nat_exact)
  have "nat \<bar>c\<bar> * 2 ^ j < 2 ^ 53 * 2 ^ 1074"
  proof -
    have "nat \<bar>c\<bar> * 2 ^ j < 2 ^ 53 * 2 ^ j" using c by simp
    also have "\<dots> \<le> 2 ^ 53 * 2 ^ 1074"
      by (rule mult_le_mono2, rule power_increasing [OF assms(2)]) simp
    finally show ?thesis .
  qed
  also have "\<dots> \<le> double_overflow"
    unfolding double_overflow_def power_add [symmetric] by (rule power_increasing) simp_all
  finally have "\<not> double_overflow \<le> nat \<bar>c * 2 ^ j\<bar>"
    by (simp only: n not_le)
  then show ?thesis
    by (simp add: double_round_def r Let_def mult_sgn_abs del: of_nat_nat)
qed

lemma double_sub_of_int:
  assumes "\<bar>a - b\<bar> < 2 ^ 53"
  shows "double_sub (double_of_int a) (double_of_int b) = double_of_int (a - b)"
  using double_round_exact [OF assms, of 1074]
  by (simp add: double_of_int_def double_scale_def left_diff_distrib)

lemma double_le_of_int: "double_le (double_of_int a) (double_of_int b) = (a \<le> b)"
  by (simp add: double_of_int_def double_scale_def)

lemma double_ge_of_int: "double_ge (double_of_int a) (double_of_int b) = (b \<le> a)"
  by (simp add: double_ge_def double_le_of_int)

lemma is_finite_of_int: "is_finite (double_of_int a)"
  by (simp add: is_finite_def double_of_int_def)

text \<open>
  A difference that is not a double is rounded: \<open>6000 - (1000 + 2^-43)\<close> is
  \<open>5000\<close>, the tie-free nearest double, although the exact difference is below it.
\<close>

lemma round_nat_up:
  assumes "bit_length n = 53 + s" and "n = q * 2 ^ s + r" and "r < 2 ^ s" and "2 ^ s < 2 * r"
  shows "round_nat n = (q + 1) * 2 ^ s"
proof -
  have "n div 2 ^ s = q" "n mod 2 ^ s = r"
    using assms(3) by (simp_all add: assms(2))
  then have "round_half_even n s = q + 1"
    using assms(4) by (simp add: round_half_even_def Let_def)
  then show ?thesis
    by (simp add: round_nat_def assms(1))
qed

lemma rounding_example:
  "double_sub (double_of_int 6000) (Finite (1000 * double_scale + 2 ^ 1031)) = double_of_int 5000"
proof -
  define n :: nat where "n = (5000 * 2 ^ 40 - 1) * 2 ^ 1034 + 7 * 2 ^ 1031"
  have n': "n = 5000 * 2 ^ 1074 - 2 ^ 1031"
    by (simp add: n_def)
  have b: "bit_length n = Suc 1086"
    by (rule bit_length_eqI) (simp_all add: n')
  have "round_nat n = (5000 * 2 ^ 40 - 1 + 1) * 2 ^ 1034"
  proof (rule round_nat_up)
    show "bit_length n = 53 + 1034" using b by simp
    show "n = (5000 * 2 ^ 40 - 1) * 2 ^ 1034 + 7 * 2 ^ 1031" by (rule n_def)
    show "7 * 2 ^ 1031 < (2::nat) ^ 1034" by simp
    show "(2::nat) ^ 1034 < 2 * (7 * 2 ^ 1031)" by simp
  qed
  then have r: "round_nat n = 5000 * 2 ^ 1074" by simp
  have d: "6000 * double_scale - (1000 * double_scale + 2 ^ 1031) = int n"
    by (simp add: n' double_scale_def)
  have pos: "0 < n" by (simp add: n_def)
  have e: "double_round (int n) = Finite (5000 * 2 ^ 1074)"
    using pos by (simp add: double_round_def r Let_def double_overflow_def)
  have "double_sub (double_of_int 6000) (Finite (1000 * double_scale + 2 ^ 1031)) =
      double_round (6000 * double_scale - (1000 * double_scale + 2 ^ 1031))"
    by (simp only: double_of_int_def double_sub.simps)
  also have "\<dots> = double_round (int n)" by (simp only: d)
  also have "\<dots> = Finite (5000 * 2 ^ 1074)" by (rule e)
  also have "\<dots> = double_of_int 5000" by (simp only: double_of_int_def double_scale_def)
  finally show ?thesis .
qed

section \<open>The peer: state\<close>

subsection \<open>Frames\<close>

lemma callToTransport_fields [simp]:
  "pendingRequests (callToTransport s d a) = pendingRequests s"
  "timeoutCheckInterval (callToTransport s d a) = timeoutCheckInterval s"
  "dispatcher (callToTransport s d a) = dispatcher s"
  "entries (callToTransport s d a) = entries s"
  "toTransport (callToTransport s d a) = toTransport s"
  by (simp_all add: callToTransport_def split: option.split)

lemma reject_fields [simp]:
  "pendingRequests (reject w e s) = pendingRequests s"
  "timeoutCheckInterval (reject w e s) = timeoutCheckInterval s"
  "dispatcher (reject w e s) = dispatcher s"
  "entries (reject w e s) = entries s"
  "toTransport (reject w e s) = toTransport s"
  "trace (reject w e s) = trace s @ [Reject w e]"
  by (simp_all add: reject_def)

lemma resolve_fields [simp]:
  "pendingRequests (resolve w v s) = pendingRequests s"
  "timeoutCheckInterval (resolve w v s) = timeoutCheckInterval s"
  "trace (resolve w v s) = trace s @ [Resolve w v]"
  by (simp_all add: resolve_def)

lemma stopTimeoutChecker_fields [simp]:
  "pendingRequests (stopTimeoutChecker s) = pendingRequests s"
  "timeoutCheckInterval (stopTimeoutChecker s) = None"
  "dispatcher (stopTimeoutChecker s) = dispatcher s"
  "entries (stopTimeoutChecker s) = entries s"
  "toTransport (stopTimeoutChecker s) = toTransport s"
  "trace (stopTimeoutChecker s) = trace s"
  "schema (stopTimeoutChecker s) = schema s"
  by (auto simp: stopTimeoutChecker_def)

subsection \<open>clean\<close>

lemma fold_reject_fields:
  "pendingRequests (fold (\<lambda>request s. reject request e s) ws s) = pendingRequests s"
  "timeoutCheckInterval (fold (\<lambda>request s. reject request e s) ws s) = timeoutCheckInterval s"
  "dispatcher (fold (\<lambda>request s. reject request e s) ws s) = dispatcher s"
  "entries (fold (\<lambda>request s. reject request e s) ws s) = entries s"
  "toTransport (fold (\<lambda>request s. reject request e s) ws s) = toTransport s"
  "trace (fold (\<lambda>request s. reject request e s) ws s) = trace s @ map (\<lambda>w. Reject w e) ws"
  by (induction ws arbitrary: s; simp)+

lemma rejectPendingRequests_fields:
  "pendingRequests (rejectPendingRequests s e) = []"
  "timeoutCheckInterval (rejectPendingRequests s e) = None"
  "dispatcher (rejectPendingRequests s e) = dispatcher s"
  "entries (rejectPendingRequests s e) = entries s"
  "trace (rejectPendingRequests s e) =
     trace s @ map (\<lambda>(i, w). Reject w e) (pendingRequests s)"
  by (simp_all add: rejectPendingRequests_def Let_def fold_reject_fields Map_values_def
      case_prod_beta' comp_def)

lemma clear_guards_fields [simp]:
  "pendingRequests (clear_guards r s) = pendingRequests s"
  "timeoutCheckInterval (clear_guards r s) = timeoutCheckInterval s"
  "dispatcher (clear_guards r s) = dispatcher s"
  "toTransport (clear_guards r s) = toTransport s"
  "trace (clear_guards r s) = trace s"
  "length (entries (clear_guards r s)) = length (entries s)"
  by (simp_all add: clear_guards_def)

lemma fold_clear_guards_fields:
  "pendingRequests (fold clear_guards rs s) = pendingRequests s"
  "timeoutCheckInterval (fold clear_guards rs s) = timeoutCheckInterval s"
  "dispatcher (fold clear_guards rs s) = dispatcher s"
  "toTransport (fold clear_guards rs s) = toTransport s"
  "trace (fold clear_guards rs s) = trace s"
  "length (entries (fold clear_guards rs s)) = length (entries s)"
  by (induction rs arbitrary: s; simp)+

lemma fold_clear_guards_nth:
  "i < length (entries s) \<Longrightarrow>
     entries (fold clear_guards rs s) ! i =
       (if i \<in> set rs then (entries s ! i)\<lparr>guards := []\<rparr> else entries s ! i)"
proof (induction rs arbitrary: s)
  case Nil
  then show ?case by simp
next
  case (Cons r rs)
  have "i < length (entries (clear_guards r s))"
    using Cons.prems by simp
  from Cons.IH [OF this] show ?case
    using Cons.prems by (auto simp: clear_guards_def nth_list_update)
qed

lemma resetDispatcher_fields:
  "pendingRequests (resetDispatcher s) = pendingRequests s"
  "timeoutCheckInterval (resetDispatcher s) = timeoutCheckInterval s"
  "dispatcher (resetDispatcher s) = []"
  "trace (resetDispatcher s) = trace s"
  "entries (resetDispatcher s) = entries (fold clear_guards (Map_values (dispatcher s)) s)"
  by (simp_all add: resetDispatcher_def Let_def fold_clear_guards_fields)

text \<open>
  Claim C9. After \<open>clean(reason)\<close>: each waiter that was pending has been rejected once,
  in insertion order, with the error of code 1004 whose detail message is \<open>reason\<close>; the
  pending table and the dispatcher are empty; the guard list of every entry that the
  dispatcher held is empty; the timeout checker is stopped; the transport callback is null,
  so that a later send is a no-op.
\<close>

theorem clean_postcondition:
  "let s' = clean s reason;
       error = \<lparr>err_code = 1004, err_message = INTERNAL_ERROR_message, err_id = -1,
                err_errorMessage = reason\<rparr>
   in trace s' = trace s @ map (\<lambda>(i, request). Reject request error) (pendingRequests s) \<and>
      pendingRequests s' = [] \<and>
      dispatcher s' = [] \<and>
      (\<forall>(m, r) \<in> set (dispatcher s). r < length (entries s) \<longrightarrow> guards (entries s' ! r) = []) \<and>
      timeoutCheckInterval s' = None \<and>
      toTransport s' = None \<and>
      (\<forall>data appData. callToTransport s' data appData = s')"
proof -
  let ?e = "\<lparr>err_code = INTERNAL_ERROR_code, err_message = INTERNAL_ERROR_message, err_id = -1,
                err_errorMessage = reason\<rparr>"
  let ?s1 = "rejectPendingRequests s ?e"
  let ?s2 = "resetDispatcher ?s1"
  have c: "clean s reason = (stopTimeoutChecker ?s2)\<lparr>toTransport := None\<rparr>"
    by (simp add: clean_def Let_def)
  have g: "guards (entries ?s2 ! r) = []" if "(m, r) \<in> set (dispatcher s)" "r < length (entries s)" for m r
  proof -
    have "r \<in> set (Map_values (dispatcher ?s1))"
      using that(1) by (force simp: Map_values_def rejectPendingRequests_fields)
    moreover have "r < length (entries ?s1)"
      using that(2) by (simp add: rejectPendingRequests_fields)
    ultimately show ?thesis
      by (simp add: resetDispatcher_fields fold_clear_guards_nth)
  qed
  show ?thesis
    unfolding Let_def c
    using g
    by (auto simp: resetDispatcher_fields rejectPendingRequests_fields callToTransport_def
        INTERNAL_ERROR_code_def)
qed


subsection \<open>Maps\<close>

lemma Map_get_delete: "Map_get (Map_delete m k) k' = (if k' = k then None else Map_get m k')"
  by (induction m) (auto simp: Map_get_def Map_delete_def)

lemma Map_delete_hd:
  "k \<notin> fst ` set m \<Longrightarrow> Map_delete ((k, v) # m) k = m"
  by (induction m) (auto simp: Map_delete_def)

lemma Map_get_Some_nonempty: "Map_get m k = Some v \<Longrightarrow> m \<noteq> []"
  by (auto simp: Map_get_def)

lemma Map_set_nonempty: "Map_set m k v \<noteq> []"
  by (cases m) (auto split: if_splits)

lemma length_Map_set: "length (Map_set m k v) \<le> Suc (length m)"
  by (induction m) auto

lemma keys_Map_set: "fst ` set (Map_set m k v) = insert k (fst ` set m)"
  by (induction m) (auto split: if_splits simp: rev_image_eqI)

lemma distinct_Map_set: "distinct (map fst m) \<Longrightarrow> distinct (map fst (Map_set m k v))"
proof (induction m)
  case Nil
  then show ?case by simp
next
  case (Cons p m)
  then show ?case by (cases p) (auto simp: keys_Map_set)
qed

lemma distinct_Map_delete: "distinct (map fst m) \<Longrightarrow> distinct (map fst (Map_delete m k))"
  by (simp add: Map_delete_def distinct_map_filter)

subsection \<open>Response completion\<close>

text \<open>
  Claim C4. For an inbound Response frame: with no waiter under its id the peer is unchanged.
  With a waiter \<open>w\<close> (whose method the schema knows, as the type of \<open>request\<close> requires),
  the waiter is removed from the pending table and exactly one completion follows: resolved
  with void when the body is empty or the schema has no response constructor for the
  waiter's method; otherwise resolved with the reader built from the body, or, when building
  it throws, rejected with an error of code 1001 that carries the id.
\<close>

theorem response_completion:
  assumes "decodeMessage data = Inr msg" and "msg_type msg = 2"
  shows "(Map_get (pendingRequests s) (msg_id msg) = None \<longrightarrow> fromTransport s data appData = s) \<and>
         (\<forall>w d. Map_get (pendingRequests s) (msg_id msg) = Some w \<and>
                 schema s (req_method w) = Some d \<longrightarrow>
            pendingRequests (fromTransport s data appData) =
              Map_delete (pendingRequests s) (msg_id msg) \<and>
            Map_get (pendingRequests (fromTransport s data appData)) (msg_id msg) = None \<and>
            trace (fromTransport s data appData) =
              trace s @
              [if length (msg_body msg) = 0 then Resolve w None
               else case Res d of
                      None \<Rightarrow> Resolve w None
                    | Some ResCtor \<Rightarrow>
                        (case unpackFB ResCtor (msg_body msg) of
                           Inr res \<Rightarrow> Resolve w (Some res)
                         | Inl e \<Rightarrow>
                             Reject w \<lparr>err_code = 1001, err_message = Error_message e,
                                       err_id = msg_id msg, err_errorMessage = []\<rparr>)])"
proof -
  have f: "fromTransport s data appData = handleResponse s msg"
    using assms by (simp add: fromTransport_def)
  show ?thesis
    unfolding f
    by (auto simp: handleResponse_def Let_def Map_get_delete INVALID_REQUEST_code_def
        split: option.split sum.split)
qed

subsection \<open>The timeout checker runs exactly while a request is pending\<close>

lemma checker_inv_callToTransport [simp]:
  "checker_inv (callToTransport s d a) = checker_inv s"
  by (simp add: checker_inv_def)

lemma handleRequest_fields:
  "pendingRequests (handleRequest s msg a) = pendingRequests s"
  "timeoutCheckInterval (handleRequest s msg a) = timeoutCheckInterval s"
  by (simp_all add: handleRequest_def Let_def
      split: option.split sum.split prod.split completion.split js_value.split)

lemma checker_inv_complete:
  assumes "checker_inv s" and "Map_get (pendingRequests s) k = Some w"
  shows "checker_inv
     (let s = s\<lparr>pendingRequests := Map_delete (pendingRequests s) k\<rparr>
      in if Map_size (pendingRequests s) = 0 then stopTimeoutChecker s else s)"
  using assms Map_get_Some_nonempty [OF assms(2)]
  by (auto simp: checker_inv_def Let_def Map_size_def)

lemma checker_inv_handleResponse: "checker_inv s \<Longrightarrow> checker_inv (handleResponse s msg)"
proof (cases "Map_get (pendingRequests s) (msg_id msg)")
  case None
  then show "checker_inv s \<Longrightarrow> ?thesis" by (simp add: handleResponse_def)
next
  case (Some w)
  assume "checker_inv s"
  from checker_inv_complete [OF this Some] show ?thesis
    using Some
    by (simp add: handleResponse_def Let_def checker_inv_def
        split: option.split sum.split if_splits)
qed

lemma checker_inv_handleErrorResponse:
  "checker_inv s \<Longrightarrow> checker_inv (handleErrorResponse s msg)"
proof (cases "Map_get (pendingRequests s) (msg_id msg)")
  case None
  then show "checker_inv s \<Longrightarrow> ?thesis" by (simp add: handleErrorResponse_def)
next
  case (Some w)
  assume "checker_inv s"
  from checker_inv_complete [OF this Some] show ?thesis
    using Some
    by (simp add: handleErrorResponse_def Let_def checker_inv_def
        split: prod.split if_splits)
qed

lemma checker_inv_handleRequest: "checker_inv (handleRequest s msg a) = checker_inv s"
  by (simp add: checker_inv_def handleRequest_fields)

lemma checker_inv_fromTransport: "checker_inv s \<Longrightarrow> checker_inv (fromTransport s data a)"
  by (simp add: fromTransport_def checker_inv_handleResponse checker_inv_handleErrorResponse
      checker_inv_handleRequest split: sum.split)

lemma checker_inv_request: "checker_inv s \<Longrightarrow> checker_inv (request s m req a now)"
proof -
  assume inv: "checker_inv s"
  let ?k = "generateRequestId (requestIdCounter s)"
  let ?m = "Map_set (pendingRequests s) ?k \<lparr>req_id = ?k, req_method = m, timestamp = now\<rparr>"
  have ne: "?m \<noteq> []" by (rule Map_set_nonempty)
  have "pendingRequests s \<noteq> []" if "length ?m \<noteq> 1"
  proof
    assume "pendingRequests s = []"
    then have "length ?m = 1" by simp
    with that show False by simp
  qed
  then show ?thesis
    using inv ne
    by (auto simp: request_def Let_def checker_inv_def Map_size_def startTimeoutChecker_def)
qed

lemma expire_interval [simp]: "timeoutCheckInterval (expire k s) = timeoutCheckInterval s"
  by (simp add: expire_def split: option.split)

lemma fold_expire_interval [simp]:
  "timeoutCheckInterval (fold expire ks s) = timeoutCheckInterval s"
  by (induction ks arbitrary: s) simp_all

lemma checker_inv_tick: "checker_inv s \<Longrightarrow> checker_inv (tick s now)"
  by (auto simp: tick_def timeoutCheck_def Let_def checker_inv_def Map_size_def
      split: option.split)

lemma checker_inv_clean: "checker_inv (clean s reason)"
  by (simp add: clean_def Let_def checker_inv_def resetDispatcher_fields
      rejectPendingRequests_fields)

lemma checker_inv_exec: "checker_inv s \<Longrightarrow> checker_inv (exec act s)"
proof (cases act)
  case (RegisterToTransportCallback cb)
  then show "checker_inv s \<Longrightarrow> ?thesis"
    by (simp add: registerToTransportCallback_def checker_inv_def)
next
  case (RegisterHandler m f)
  then show "checker_inv s \<Longrightarrow> ?thesis"
    by (auto simp: registerHandler_def checker_inv_def Let_def split: option.split)
next
  case (AddGuard h ty f)
  then show "checker_inv s \<Longrightarrow> ?thesis"
    by (cases h) (simp add: push_guard_def checker_inv_def)
next
  case (Request m req a now)
  then show "checker_inv s \<Longrightarrow> ?thesis" by (simp add: checker_inv_request)
next
  case (Notify m req a)
  then show "checker_inv s \<Longrightarrow> ?thesis" by (simp add: notify_def)
next
  case (FromTransport data a)
  then show "checker_inv s \<Longrightarrow> ?thesis" by (simp add: checker_inv_fromTransport)
next
  case (Clean reason)
  then show "checker_inv s \<Longrightarrow> ?thesis" by (simp add: checker_inv_clean)
next
  case (Tick now)
  then show "checker_inv s \<Longrightarrow> ?thesis" by (simp add: checker_inv_tick)
next
  case (Fulfilled i m hasRes a res)
  then show "checker_inv s \<Longrightarrow> ?thesis" by (simp add: then_callback_def split: option.split)
next
  case (Rejected i a e)
  then show "checker_inv s \<Longrightarrow> ?thesis" by (simp add: catch_callback_def)
qed

lemma checker_inv_new: "checker_inv (FbRpc_new counter sch opts)"
  by (simp add: checker_inv_def FbRpc_new_def)

lemma checker_inv_fold: "checker_inv s \<Longrightarrow> checker_inv (fold exec acts s)"
  by (induction acts arbitrary: s) (simp_all add: checker_inv_exec)

text \<open>
  Claim C3. After every sequence of calls on a new peer (registrations, \<open>request\<close>,
  \<open>notify\<close>, \<open>fromTransport\<close>, \<open>clean\<close>), ticks of the timeout checker and settled
  handler promises, the interval handle is non-null exactly when the pending table is
  non-empty. So a request into an empty table starts the checker, and the completion of the
  last waiter, by a Response, an ErrorResponse, the sweep or \<open>clean\<close>, stops it.
\<close>

theorem timeout_checker_invariant: "checker_inv (run acts (FbRpc_new counter sch opts))"
  unfolding run_def by (rule checker_inv_fold [OF checker_inv_new])

subsection \<open>The timeout sweep\<close>

lemma timedOutRequests_takeWhile:
  "timedOutRequests m now t =
     map fst (takeWhile (\<lambda>(i, w). double_ge (double_sub now (timestamp w)) t) m)"
  by (induction m now t rule: timedOutRequests.induct) auto

lemma expire_present:
  assumes "Map_get (pendingRequests s) k = Some w"
  shows "expire k s =
     s\<lparr>pendingRequests := Map_delete (pendingRequests s) k,
       trace := trace s @ [Reject w \<lparr>err_code = REQUEST_TIMEOUT_code,
         err_message = REQUEST_TIMEOUT_message, err_id = -1, err_errorMessage = []\<rparr>]\<rparr>"
  using assms by (simp add: expire_def reject_def)

lemma fold_expire_prefix:
  assumes "distinct (map fst (pre @ rest))" and "pendingRequests s = pre @ rest"
  shows "fold expire (map fst pre) s =
     s\<lparr>pendingRequests := rest,
       trace := trace s @ map (\<lambda>(i, w). Reject w \<lparr>err_code = REQUEST_TIMEOUT_code,
         err_message = REQUEST_TIMEOUT_message, err_id = -1, err_errorMessage = []\<rparr>) pre\<rparr>"
  using assms
proof (induction pre arbitrary: s)
  case Nil
  then show ?case by simp
next
  case (Cons p pre)
  obtain k w where p: "p = (k, w)" by (cases p)
  have get: "Map_get (pendingRequests s) k = Some w"
    using Cons.prems(2) by (simp add: p Map_get_def)
  have "k \<notin> fst ` set (pre @ rest)"
    using Cons.prems(1) by (auto simp: p)
  then have del: "Map_delete (pendingRequests s) k = pre @ rest"
    using Cons.prems(2) Map_delete_hd [of k "pre @ rest" w] by (simp add: p)
  let ?s1 = "expire k s"
  have s1: "pendingRequests ?s1 = pre @ rest"
    by (simp add: expire_present [OF get] del)
  have d1: "distinct (map fst (pre @ rest))"
    using Cons.prems(1) by simp
  show ?case
    using Cons.IH [OF d1 s1]
    by (simp add: p expire_present [OF get] del)
qed

lemma sorted_takeWhile_complete:
  assumes "is_finite now"
    and "sorted_wrt double_le (map (timestamp \<circ> snd) m)" and "e \<in> set m"
    and "double_ge (double_sub now (timestamp (snd e))) t"
  shows "e \<in> set (takeWhile (\<lambda>(i, w). double_ge (double_sub now (timestamp w)) t) m)"
  using assms(2-)
proof (induction m)
  case Nil
  then show ?case by simp
next
  case (Cons p m)
  have "double_ge (double_sub now (timestamp (snd p))) t"
  proof (cases "e = p")
    case True
    with Cons.prems(3) show ?thesis by simp
  next
    case False
    with Cons.prems(2) have "e \<in> set m" by simp
    with Cons.prems(1) have "double_le (timestamp (snd p)) (timestamp (snd e))" by auto
    then show ?thesis using Cons.prems(3) by (rule expired_mono [OF assms(1)])
  qed
  with Cons show ?case by (cases p) auto
qed

text \<open>
  The waiter of time \<open>1000 + 2^-43\<close> is marked at time \<open>6000\<close> under a timeout of
  \<open>5000\<close>: its age, as the subtraction of the program computes it, is \<open>5000\<close>.
\<close>

lemma timedOutRequests_rounded_age:
  "timedOutRequests
     [(1, \<lparr>req_id = 1, req_method = 0, timestamp = Finite (1000 * double_scale + 2 ^ 1031)\<rparr>)]
     (double_of_int 6000) (double_of_int 5000) = [1]"
  by (simp only: timedOutRequests.simps PendingRequest.simps rounding_example double_ge_of_int)
    simp

text \<open>
  Claim C2. On a tick, the waiters marked are the longest prefix of the pending table, in
  insertion order, whose age \<open>now - timestamp\<close> is at least \<open>requestTimeout\<close>, the
  difference and the comparison being those of double-precision numbers, as the program
  computes them; exactly these are removed, and each is rejected with the error of code
  1005. When the timestamps do not decrease along the table, every expired waiter is in
  that prefix; here \<open>now\<close>, the value of \<open>performance.now()\<close>, is a finite number.
\<close>

theorem timeout_sweep:
  assumes "distinct (map fst (pendingRequests s))" and "timeoutCheckInterval s \<noteq> None"
  shows "let expired = (\<lambda>(i, request).
               double_ge (double_sub now (timestamp request)) (requestTimeout s));
             marked = takeWhile expired (pendingRequests s);
             s' = tick s now
         in pendingRequests s = marked @ pendingRequests s' \<and>
            pendingRequests s' = dropWhile expired (pendingRequests s) \<and>
            trace s' = trace s @
              map (\<lambda>(i, request). Reject request
                     \<lparr>err_code = 1005, err_message = REQUEST_TIMEOUT_message,
                      err_id = -1, err_errorMessage = []\<rparr>) marked \<and>
            (is_finite now \<and>
             sorted_wrt double_le (map (timestamp \<circ> snd) (pendingRequests s)) \<longrightarrow>
               (\<forall>e \<in> set (pendingRequests s). expired e \<longrightarrow> e \<in> set marked))"
proof -
  let ?P = "\<lambda>(i, request). double_ge (double_sub now (timestamp request)) (requestTimeout s)"
  let ?pre = "takeWhile ?P (pendingRequests s)"
  let ?rest = "dropWhile ?P (pendingRequests s)"
  have split: "pendingRequests s = ?pre @ ?rest" by simp
  have d: "distinct (map fst (?pre @ ?rest))" using assms(1) by simp
  have f: "fold expire (timedOutRequests (pendingRequests s) now (requestTimeout s)) s =
     s\<lparr>pendingRequests := ?rest,
       trace := trace s @ map (\<lambda>(i, w). Reject w \<lparr>err_code = REQUEST_TIMEOUT_code,
         err_message = REQUEST_TIMEOUT_message, err_id = -1, err_errorMessage = []\<rparr>) ?pre\<rparr>"
    unfolding timedOutRequests_takeWhile by (rule fold_expire_prefix [OF d split])
  have t: "tick s now = timeoutCheck s now"
    using assms(2) by (auto simp: tick_def)
  have c: "e \<in> set ?pre" if "is_finite now"
    "sorted_wrt double_le (map (timestamp \<circ> snd) (pendingRequests s))"
    "e \<in> set (pendingRequests s)" "?P e" for e
    using sorted_takeWhile_complete [OF that(1,2,3), of "requestTimeout s"] that(4)
    by (simp add: case_prod_beta')
  show ?thesis
    unfolding Let_def t timeoutCheck_def f
    using c by (auto simp: REQUEST_TIMEOUT_code_def)
qed

subsection \<open>The guard chain\<close>

lemma run_guards_throw:
  assumes "j < length gs"
    and "\<forall>i<j. \<exists>v. guard_fn (gs ! i) (guard_args (guard_type (gs ! i)) req a) = Return v"
    and "guard_fn (gs ! j) (guard_args (guard_type (gs ! j)) req a) = Throw e"
  shows "run_guards gs k m req a =
     (map (\<lambda>i. GuardCall m (k + i) (guard_args (guard_type (gs ! i)) req a)) [0..<Suc j], Some e)"
  using assms
proof (induction gs arbitrary: j k)
  case Nil
  then show ?case by simp
next
  case (Cons g gs)
  show ?case
  proof (cases j)
    case 0
    with Cons.prems(3) show ?thesis by (simp add: Let_def)
  next
    case (Suc j')
    from Cons.prems(2) Suc obtain v where
      v: "guard_fn g (guard_args (guard_type g) req a) = Return v"
      by fastforce
    have 1: "j' < length gs" using Cons.prems(1) Suc by simp
    have 2: "\<forall>i<j'. \<exists>v. guard_fn (gs ! i) (guard_args (guard_type (gs ! i)) req a) = Return v"
      using Cons.prems(2) Suc by fastforce
    have 3: "guard_fn (gs ! j') (guard_args (guard_type (gs ! j')) req a) = Throw e"
      using Cons.prems(3) Suc by simp
    have "run_guards (g # gs) k m req a =
        (GuardCall m k (guard_args (guard_type g) req a) #
           map (\<lambda>i. GuardCall m (Suc k + i) (guard_args (guard_type (gs ! i)) req a)) [0..<Suc j'],
         Some e)"
      using Cons.IH [OF 1 2 3, of "Suc k"] v by (simp add: Let_def)
    also have "\<dots> =
        (map (\<lambda>i. GuardCall m (k + i) (guard_args (guard_type ((g # gs) ! i)) req a))
           [0..<Suc (Suc j')], Some e)"
      by (simp add: map_upt_Suc del: upt_Suc)
    finally show ?thesis using Suc by simp
  qed
qed

lemma run_guards_pass:
  assumes "\<forall>i<length gs. \<exists>v. guard_fn (gs ! i) (guard_args (guard_type (gs ! i)) req a) = Return v"
  shows "run_guards gs k m req a =
     (map (\<lambda>i. GuardCall m (k + i) (guard_args (guard_type (gs ! i)) req a)) [0..<length gs], None)"
  using assms
proof (induction gs arbitrary: k)
  case Nil
  then show ?case by simp
next
  case (Cons g gs)
  from Cons.prems obtain v where
    v: "guard_fn g (guard_args (guard_type g) req a) = Return v"
    by fastforce
  have 1: "\<forall>i<length gs. \<exists>v. guard_fn (gs ! i) (guard_args (guard_type (gs ! i)) req a) = Return v"
    using Cons.prems by fastforce
  have "run_guards (g # gs) k m req a =
      (GuardCall m k (guard_args (guard_type g) req a) #
         map (\<lambda>i. GuardCall m (Suc k + i) (guard_args (guard_type (gs ! i)) req a)) [0..<length gs],
       None)"
    using Cons.IH [OF 1, of "Suc k"] v by (simp add: Let_def)
  also have "\<dots> =
      (map (\<lambda>i. GuardCall m (k + i) (guard_args (guard_type ((g # gs) ! i)) req a))
         [0..<length (g # gs)], None)"
    by (simp add: map_upt_Suc del: upt_Suc)
  finally show ?case .
qed

lemma push_guard_appends:
  "r < length (entries s) \<Longrightarrow>
     guards (entries (push_guard s (DispatcherHandler r) g) ! r) = guards (entries s ! r) @ [g]"
  by (simp add: push_guard_def)

text \<open>
  Claim C5, amended. For an inbound Request or Notification with a registered handler and a
  body that decodes: the three append operations put a guard at the end of the handler's
  list, and the guards are called in list order, \<open>addGuard\<close>'s with \<open>(req, appData)\<close>,
  \<open>addRequestGuard\<close>'s with \<open>(req)\<close>, \<open>addAppDataGuard\<close>'s with \<open>(appData)\<close>. When
  guard \<open>j\<close> is the first to throw, the calls made are those of guards \<open>0..j\<close> and nothing
  else: no later guard, not the handler. For a Request, the ErrorResponse with the request's
  id and code 1006 is then handed to the transport callback when one is registered, and
  nothing is sent when none is; for a Notification nothing is sent. When no guard throws,
  all guards are called in order and then the handler.
\<close>

theorem guard_chain:
  assumes "decodeMessage data = Inr msg" and "msg_type msg = 0 \<or> msg_type msg = 1"
    and "Map_get (dispatcher s) (msg_method msg) = Some r" and "r < length (entries s)"
    and "unpackFB (Req (entries s ! r)) (msg_body msg) = Inr req"
  shows "let gs = guards (entries s ! r);
             args = (\<lambda>i. guard_args (guard_type (gs ! i)) req appData);
             call = (\<lambda>i. GuardCall (msg_method msg) i (args i));
             s' = fromTransport s data appData
         in guards (entries (addGuard s (DispatcherHandler r) f) ! r) =
              gs @ [\<lparr>guard_type = Guard, guard_fn = f\<rparr>] \<and>
            guards (entries (addRequestGuard s (DispatcherHandler r) f) ! r) =
              gs @ [\<lparr>guard_type = RequestGuard, guard_fn = f\<rparr>] \<and>
            guards (entries (addAppDataGuard s (DispatcherHandler r) f) ! r) =
              gs @ [\<lparr>guard_type = AppDataGuard, guard_fn = f\<rparr>] \<and>
            guard_args Guard req appData = [ReqArg req, AppDataArg appData] \<and>
            guard_args RequestGuard req appData = [ReqArg req] \<and>
            guard_args AppDataGuard req appData = [AppDataArg appData] \<and>
            (\<forall>j e. j < length gs \<and> (\<forall>i<j. \<exists>v. guard_fn (gs ! i) (args i) = Return v) \<and>
                   guard_fn (gs ! j) (args j) = Throw e \<longrightarrow>
               (let frame = encodeErrorResponse (msg_id msg) GUARD_ERROR_code (Error_toString e)
                in s' = s\<lparr>trace := trace s @ map call [0..<Suc j] @
                            (if msg_type msg = 0 then
                               (case toTransport s of
                                  Some cb \<Rightarrow> [ToTransport cb frame appData]
                                | None \<Rightarrow> [])
                             else [])\<rparr> \<and>
                   elem frame 0 = 3 \<and> read32 frame 4 = msg_id msg \<and> readI32 frame 12 = 1006)) \<and>
            ((\<forall>i<length gs. \<exists>v. guard_fn (gs ! i) (args i) = Return v) \<longrightarrow>
               (\<exists>rest. trace s' = trace s @ map call [0..<length gs] @
                  HandlerCall (msg_method msg) [ReqArg req, AppDataArg appData] # rest))"
proof -
  let ?gs = "guards (entries s ! r)"
  let ?args = "\<lambda>i. guard_args (guard_type (?gs ! i)) req appData"
  let ?call = "\<lambda>i. GuardCall (msg_method msg) i (?args i)"
  have f: "fromTransport s data appData = handleRequest s msg appData"
    using assms(1,2) by (auto simp: fromTransport_def)
  have code: "ToInt32 1006 = 1006" by (simp add: ToInt32_eq)
  have throw: "handleRequest s msg appData =
      s\<lparr>trace := trace s @ map ?call [0..<Suc j] @
           (if msg_type msg = 0 then
              (case toTransport s of
                 Some cb \<Rightarrow> [ToTransport cb
                   (encodeErrorResponse (msg_id msg) GUARD_ERROR_code (Error_toString e)) appData]
               | None \<Rightarrow> [])
            else [])\<rparr>"
    if "j < length ?gs" "\<forall>i<j. \<exists>v. guard_fn (?gs ! i) (?args i) = Return v"
      "guard_fn (?gs ! j) (?args j) = Throw e" for j e
    using assms(2-5) run_guards_throw [OF that, of 0 "msg_method msg"]
    by (auto simp: handleRequest_def Let_def callToTransport_def split: option.split)
  have pass: "\<exists>rest. trace (handleRequest s msg appData) = trace s @ map ?call [0..<length ?gs] @
                  HandlerCall (msg_method msg) [ReqArg req, AppDataArg appData] # rest"
    if "\<forall>i<length ?gs. \<exists>v. guard_fn (?gs ! i) (?args i) = Return v"
    using assms(2-5) run_guards_pass [OF that, of 0 "msg_method msg"]
    by (auto simp: handleRequest_def Let_def callToTransport_def
        split: option.split completion.split js_value.split)
  show ?thesis
    unfolding Let_def f
    using throw pass assms(4) decodeMessage_id [OF assms(1)]
    by (simp add: addGuard_def addRequestGuard_def addAppDataGuard_def push_guard_appends
        guard_args_def error_frame_type error_frame_id error_frame_code code GUARD_ERROR_code_def)
qed

subsection \<open>Reachable peers are well formed\<close>

text \<open>
  The hypotheses on the shape of the peer in the theorems above (distinct keys in the
  pending table, dispatcher values inside the store) hold after every run of a new peer.
\<close>

lemma wf_trace [simp]: "well_formed_peer (s\<lparr>trace := t\<rparr>) = well_formed_peer s"
  by (simp add: well_formed_peer_def)

lemma wf_callToTransport [simp]: "well_formed_peer (callToTransport s d a) = well_formed_peer s"
  by (simp add: callToTransport_def split: option.split)

lemma wf_stopTimeoutChecker [simp]:
  "well_formed_peer (stopTimeoutChecker s) = well_formed_peer s"
  by (simp add: well_formed_peer_def)

lemma handleRequest_trace_only: "\<exists>t. handleRequest s msg a = s\<lparr>trace := t\<rparr>"
proof -
  have c: "\<exists>t. callToTransport s' d a = s\<lparr>trace := t\<rparr>" if "\<exists>t. s' = s\<lparr>trace := t\<rparr>" for s' d
    using that by (auto simp: callToTransport_def split: option.split)
  have s: "\<exists>t. s = s\<lparr>trace := t\<rparr>" by (rule exI [of _ "trace s"]) simp
  show ?thesis
    unfolding handleRequest_def Let_def
    by (auto split: option.split sum.split prod.split completion.split js_value.split
        intro!: c s)
qed

lemma wf_handleRequest: "well_formed_peer (handleRequest s msg a) = well_formed_peer s"
  using handleRequest_trace_only [of s msg a] by auto

lemma wf_delete:
  "well_formed_peer s \<Longrightarrow>
   well_formed_peer (s\<lparr>pendingRequests := Map_delete (pendingRequests s) k\<rparr>)"
  by (simp add: well_formed_peer_def distinct_Map_delete)

lemma wf_reject [simp]: "well_formed_peer (reject w e s) = well_formed_peer s"
  by (simp add: reject_def)

lemma wf_resolve [simp]: "well_formed_peer (resolve w v s) = well_formed_peer s"
  by (simp add: resolve_def)

lemma wf_handleResponse: "well_formed_peer s \<Longrightarrow> well_formed_peer (handleResponse s msg)"
  by (auto simp: handleResponse_def Let_def wf_delete split: option.split sum.split)

lemma wf_handleErrorResponse:
  "well_formed_peer s \<Longrightarrow> well_formed_peer (handleErrorResponse s msg)"
  by (auto simp: handleErrorResponse_def Let_def wf_delete split: option.split prod.split)

lemma wf_fromTransport: "well_formed_peer s \<Longrightarrow> well_formed_peer (fromTransport s data a)"
  by (simp add: fromTransport_def wf_handleRequest wf_handleResponse wf_handleErrorResponse
      split: sum.split)

lemma wf_request: "well_formed_peer s \<Longrightarrow> well_formed_peer (request s m req a now)"
  by (simp add: request_def Let_def well_formed_peer_def distinct_Map_set startTimeoutChecker_def)

lemma wf_expire: "well_formed_peer s \<Longrightarrow> well_formed_peer (expire k s)"
  by (simp add: expire_def wf_delete split: option.split)

lemma wf_fold_expire: "well_formed_peer s \<Longrightarrow> well_formed_peer (fold expire ks s)"
  by (induction ks arbitrary: s) (simp_all add: wf_expire)

lemma wf_tick: "well_formed_peer s \<Longrightarrow> well_formed_peer (tick s now)"
  by (simp add: tick_def timeoutCheck_def Let_def wf_fold_expire split: option.split)

lemma wf_clean: "well_formed_peer (clean s reason)"
  by (simp add: clean_def Let_def well_formed_peer_def resetDispatcher_fields
      rejectPendingRequests_fields)

lemma set_Map_set: "set (Map_set m k v) \<subseteq> insert (k, v) (set m)"
  by (induction m) (auto split: if_splits)

lemma wf_registerHandler:
  assumes "well_formed_peer s" and "registerHandler s m f = Some (s', h)"
  shows "well_formed_peer s'"
proof -
  from assms(2) obtain d where d: "schema s m = Some d"
    by (cases "schema s m") (simp_all add: registerHandler_def)
  with assms(2) have
    s': "s' = s\<lparr>entries := entries s @ [\<lparr>Req = Req d, Res = Res d, fn = f, guards = []\<rparr>],
                  dispatcher := Map_set (dispatcher s) m (length (entries s))\<rparr>"
    by (simp add: registerHandler_def Let_def)
  have "r < Suc (length (entries s))"
    if "(k, r) \<in> set (Map_set (dispatcher s) m (length (entries s)))" for k r
  proof -
    from that set_Map_set [of "dispatcher s" m "length (entries s)"]
    have "(k, r) = (m, length (entries s)) \<or> (k, r) \<in> set (dispatcher s)" by auto
    then show ?thesis
      using assms(1) by (auto simp: well_formed_peer_def list_all_iff)
  qed
  then show ?thesis
    using assms(1) by (auto simp: s' well_formed_peer_def distinct_Map_set list_all_iff)
qed

lemma wf_push_guard: "well_formed_peer s \<Longrightarrow> well_formed_peer (push_guard s h g)"
  by (cases h) (simp add: push_guard_def well_formed_peer_def)

lemma wf_exec: "well_formed_peer s \<Longrightarrow> well_formed_peer (exec act s)"
proof (cases act)
  case (RegisterToTransportCallback cb)
  then show "well_formed_peer s \<Longrightarrow> ?thesis"
    by (simp add: registerToTransportCallback_def well_formed_peer_def)
next
  case (RegisterHandler m f)
  then show "well_formed_peer s \<Longrightarrow> ?thesis"
    by (auto simp: wf_registerHandler split: option.split)
next
  case (AddGuard h ty f)
  then show "well_formed_peer s \<Longrightarrow> ?thesis" by (simp add: wf_push_guard)
next
  case (Request m req a now)
  then show "well_formed_peer s \<Longrightarrow> ?thesis" by (simp add: wf_request)
next
  case (Notify m req a)
  then show "well_formed_peer s \<Longrightarrow> ?thesis" by (simp add: notify_def)
next
  case (FromTransport data a)
  then show "well_formed_peer s \<Longrightarrow> ?thesis" by (simp add: wf_fromTransport)
next
  case (Clean reason)
  then show "well_formed_peer s \<Longrightarrow> ?thesis" by (simp add: wf_clean)
next
  case (Tick now)
  then show "well_formed_peer s \<Longrightarrow> ?thesis" by (simp add: wf_tick)
next
  case (Fulfilled i m hasRes a res)
  then show "well_formed_peer s \<Longrightarrow> ?thesis" by (simp add: then_callback_def split: option.split)
next
  case (Rejected i a e)
  then show "well_formed_peer s \<Longrightarrow> ?thesis" by (simp add: catch_callback_def)
qed

lemma wf_fold: "well_formed_peer s \<Longrightarrow> well_formed_peer (fold exec acts s)"
  by (induction acts arbitrary: s) (simp_all add: wf_exec)

lemma well_formed_peer_run: "well_formed_peer (run acts (FbRpc_new counter sch opts))"
  unfolding run_def by (rule wf_fold) (simp add: well_formed_peer_def FbRpc_new_def)

section \<open>The UTF-8 codec and the error frame\<close>

lemma unat_byte: "n < 256 \<Longrightarrow> unat (of_nat n :: byte) = n"
  by (simp add: unat_of_nat take_bit_nat_eq_self)

lemma handler_ascii: "b \<le> 0x7F \<Longrightarrow> utf8_handler utf8_decoder_init b = (utf8_decoder_init, [b])"
  by (simp add: utf8_handler_def utf8_lead_def utf8_decoder_init_def)

lemma handler_lead2:
  "0xC2 \<le> b \<Longrightarrow> b \<le> 0xDF \<Longrightarrow>
   utf8_handler utf8_decoder_init b =
     (\<lparr>code_point = b mod 32, bytes_seen = 0, bytes_needed = 1,
       lower_boundary = 0x80, upper_boundary = 0xBF\<rparr>, [])"
  by (simp add: utf8_handler_def utf8_lead_def utf8_decoder_init_def)

lemma handler_lead3:
  "0xE0 \<le> b \<Longrightarrow> b \<le> 0xEF \<Longrightarrow>
   utf8_handler utf8_decoder_init b =
     (\<lparr>code_point = b mod 16, bytes_seen = 0, bytes_needed = 2,
       lower_boundary = (if b = 0xE0 then 0xA0 else 0x80),
       upper_boundary = (if b = 0xED then 0x9F else 0xBF)\<rparr>, [])"
  by (simp add: utf8_handler_def utf8_lead_def utf8_decoder_init_def)

lemma handler_lead4:
  "0xF0 \<le> b \<Longrightarrow> b \<le> 0xF4 \<Longrightarrow>
   utf8_handler utf8_decoder_init b =
     (\<lparr>code_point = b mod 8, bytes_seen = 0, bytes_needed = 3,
       lower_boundary = (if b = 0xF0 then 0x90 else 0x80),
       upper_boundary = (if b = 0xF4 then 0x8F else 0xBF)\<rparr>, [])"
  by (simp add: utf8_handler_def utf8_lead_def utf8_decoder_init_def)

lemma handler_continue:
  "lo \<le> b \<Longrightarrow> b \<le> hi \<Longrightarrow> Suc k < n \<Longrightarrow>
   utf8_handler \<lparr>code_point = c, bytes_seen = k, bytes_needed = n,
                 lower_boundary = lo, upper_boundary = hi\<rparr> b =
     (\<lparr>code_point = c * 64 + b mod 64, bytes_seen = Suc k, bytes_needed = n,
       lower_boundary = 0x80, upper_boundary = 0xBF\<rparr>, [])"
  by (simp add: utf8_handler_def Let_def)

lemma handler_last:
  "lo \<le> b \<Longrightarrow> b \<le> hi \<Longrightarrow> Suc k = n \<Longrightarrow>
   utf8_handler \<lparr>code_point = c, bytes_seen = k, bytes_needed = n,
                 lower_boundary = lo, upper_boundary = hi\<rparr> b =
     (utf8_decoder_init, [c * 64 + b mod 64])"
  by (auto simp: utf8_handler_def Let_def)

lemma decode_scalar1:
  assumes "c < 0x80"
  shows "utf8_decode utf8_decoder_init (utf8_encode_scalar c @ rest) =
           c # utf8_decode utf8_decoder_init rest"
proof -
  have "unat (of_nat c :: byte) = c" using assms by (simp add: unat_byte)
  then show ?thesis
    using assms by (simp add: utf8_encode_scalar_def handler_ascii)
qed



lemma mod_cont: "r < m \<Longrightarrow> (k * m + r) mod m = (r::nat)"
  by simp

lemma lead2_mod: "q < 32 \<Longrightarrow> (0xC0 + q) mod 32 = (q::nat)"
  using mod_cont [of q 32 6] by simp

lemma lead3_mod: "q < 16 \<Longrightarrow> (0xE0 + q) mod 16 = (q::nat)"
  using mod_cont [of q 16 14] by simp

lemma lead4_mod: "q < 8 \<Longrightarrow> (0xF0 + q) mod 8 = (q::nat)"
  using mod_cont [of q 8 30] by simp

lemma mod64_cont: "r < 64 \<Longrightarrow> (0x80 + r) mod 64 = (r::nat)"
  using mod_cont [of r 64 2] by simp


lemma decode_scalar2:
  assumes "0x80 \<le> c" "c < 0x800"
  shows "utf8_decode utf8_decoder_init (utf8_encode_scalar c @ rest) =
           c # utf8_decode utf8_decoder_init rest"
proof -
  define q1 r1 where "q1 = c div 64" and "r1 = c mod 64"
  have c: "c = 64 * q1 + r1" "r1 < 64" by (simp_all add: q1_def r1_def)
  have q1: "2 \<le> q1" "q1 < 32" using assms c by linarith+
  define b1 b2 where "b1 = 0xC0 + q1" and "b2 = 0x80 + r1"
  have l: "b1 < 256" "b2 < 256" using q1 c(2) by (simp_all add: b1_def b2_def)
  note u1 = unat_byte [OF l(1)] and u2 = unat_byte [OF l(2)]
  have r1: "0xC2 \<le> b1" "b1 \<le> 0xDF" using q1 by (simp_all add: b1_def)
  have r2: "0x80 \<le> b2" "b2 \<le> 0xBF" using c(2) by (simp_all add: b2_def)
  have m1: "b1 mod 32 = q1" unfolding b1_def by (rule lead2_mod [OF q1(2)])
  have m2: "q1 * 64 + b2 mod 64 = c"
    using c by (simp add: b2_def mod64_cont)
  have enc: "utf8_encode_scalar c = [of_nat b1, of_nat b2]"
    using assms by (simp add: utf8_encode_scalar_def b1_def b2_def q1_def r1_def)
  have s1: "utf8_handler utf8_decoder_init b1 =
     (\<lparr>code_point = q1, bytes_seen = 0, bytes_needed = Suc 0,
       lower_boundary = 0x80, upper_boundary = 0xBF\<rparr>, [])"
    using handler_lead2 [OF r1] by (simp add: m1)
  have s2: "utf8_handler \<lparr>code_point = q1, bytes_seen = 0, bytes_needed = Suc 0,
       lower_boundary = 0x80, upper_boundary = 0xBF\<rparr> b2 = (utf8_decoder_init, [c])"
    using handler_last [OF r2, of 0 "Suc 0" q1] by (simp only: m2)
  show ?thesis
    unfolding enc by (simp add: u1 u2 s1 s2)
qed

lemma decode_scalar3:
  assumes "0x800 \<le> c" "c < 0x10000" "\<not> (0xD800 \<le> c \<and> c \<le> 0xDFFF)"
  shows "utf8_decode utf8_decoder_init (utf8_encode_scalar c @ rest) =
           c # utf8_decode utf8_decoder_init rest"
proof -
  define q1 r1 q2 r2 where "q1 = c div 64" and "r1 = c mod 64"
    and "q2 = q1 div 64" and "r2 = q1 mod 64"
  have c: "c = 64 * q1 + r1" "r1 < 64" by (simp_all add: q1_def r1_def)
  have q1: "q1 = 64 * q2 + r2" "r2 < 64" by (simp_all add: q2_def r2_def)
  have e1: "c div 4096 = q2"
    using div_mult2_eq [of c 64 64] by (simp add: q1_def q2_def)
  define b1 b2 b3 where "b1 = 0xE0 + q2" and "b2 = 0x80 + r2" and "b3 = 0x80 + r1"
  have q2: "q2 < 16" using assms(2) c q1 by linarith
  have l: "b1 < 256" "b2 < 256" "b3 < 256"
    using q2 q1(2) c(2) by (simp_all add: b1_def b2_def b3_def)
  note u1 = unat_byte [OF l(1)] and u2 = unat_byte [OF l(2)] and u3 = unat_byte [OF l(3)]
  have r1: "0xE0 \<le> b1" "b1 \<le> 0xEF" using q2 by (simp_all add: b1_def)
  have lo: "0xA0 \<le> b2" if "b1 = 0xE0"
  proof -
    from that have "q2 = 0" by (simp add: b1_def)
    with assms(1) c q1 have "32 \<le> r2" by linarith
    then show ?thesis by (simp add: b2_def)
  qed
  have hi: "b2 \<le> 0x9F" if "b1 = 0xED"
  proof -
    from that have "q2 = 13" by (simp add: b1_def)
    with assms(2,3) c q1 have "r2 < 32" by linarith
    then show ?thesis by (simp add: b2_def)
  qed
  have r2: "(if b1 = 0xE0 then 0xA0 else 0x80) \<le> b2"
    "b2 \<le> (if b1 = 0xED then 0x9F else 0xBF)"
    using lo hi q1(2) by (simp_all add: b2_def)
  have r3: "0x80 \<le> b3" "b3 \<le> 0xBF" using c(2) by (simp_all add: b3_def)
  have m1: "b1 mod 16 = q2" unfolding b1_def by (rule lead3_mod [OF q2])
  have m2: "(q2 * 64 + b2 mod 64) * 64 + b3 mod 64 = c"
    using c q1 by (simp add: b2_def b3_def mod64_cont)
  have enc: "utf8_encode_scalar c = [of_nat b1, of_nat b2, of_nat b3]"
    using assms by (simp add: utf8_encode_scalar_def b1_def b2_def b3_def e1 q1_def r1_def r2_def)
  have s1: "utf8_handler utf8_decoder_init b1 =
     (\<lparr>code_point = q2, bytes_seen = 0, bytes_needed = 2,
       lower_boundary = (if b1 = 0xE0 then 0xA0 else 0x80),
       upper_boundary = (if b1 = 0xED then 0x9F else 0xBF)\<rparr>, [])"
    using handler_lead3 [OF r1] by (simp only: m1)
  have s2: "utf8_handler \<lparr>code_point = q2, bytes_seen = 0, bytes_needed = 2,
       lower_boundary = (if b1 = 0xE0 then 0xA0 else 0x80),
       upper_boundary = (if b1 = 0xED then 0x9F else 0xBF)\<rparr> b2 =
     (\<lparr>code_point = q2 * 64 + b2 mod 64, bytes_seen = Suc 0, bytes_needed = 2,
       lower_boundary = 0x80, upper_boundary = 0xBF\<rparr>, [])"
    by (rule handler_continue [OF r2]) simp
  have s3: "utf8_handler \<lparr>code_point = q2 * 64 + b2 mod 64, bytes_seen = Suc 0,
       bytes_needed = 2, lower_boundary = 0x80, upper_boundary = 0xBF\<rparr> b3 =
     (utf8_decoder_init, [c])"
    using handler_last [OF r3, of "Suc 0" 2 "q2 * 64 + b2 mod 64"] by (simp only: m2)
  show ?thesis
    unfolding enc by (simp add: u1 u2 u3 s1 s2 s3)
qed


lemma decode_scalar4:
  assumes "0x10000 \<le> c" "c < 0x110000"
  shows "utf8_decode utf8_decoder_init (utf8_encode_scalar c @ rest) =
           c # utf8_decode utf8_decoder_init rest"
proof -
  define q1 r1 q2 r2 q3 r3 where "q1 = c div 64" and "r1 = c mod 64"
    and "q2 = q1 div 64" and "r2 = q1 mod 64" and "q3 = q2 div 64" and "r3 = q2 mod 64"
  have c: "c = 64 * q1 + r1" "r1 < 64" by (simp_all add: q1_def r1_def)
  have q1: "q1 = 64 * q2 + r2" "r2 < 64" by (simp_all add: q2_def r2_def)
  have q2: "q2 = 64 * q3 + r3" "r3 < 64" by (simp_all add: q3_def r3_def)
  have e1: "c div 4096 = q2"
    using div_mult2_eq [of c 64 64] by (simp add: q1_def q2_def)
  have e2: "c div 262144 = q3"
    using div_mult2_eq [of c 4096 64] by (simp add: e1 q3_def)
  define b1 b2 b3 b4 where "b1 = 0xF0 + q3" and "b2 = 0x80 + r3" and "b3 = 0x80 + r2"
    and "b4 = 0x80 + r1"
  have q3: "q3 < 5" using assms(2) c q1 q2 by linarith
  have l: "b1 < 256" "b2 < 256" "b3 < 256" "b4 < 256"
    using q3 q2(2) q1(2) c(2) by (simp_all add: b1_def b2_def b3_def b4_def)
  note u1 = unat_byte [OF l(1)] and u2 = unat_byte [OF l(2)] and u3 = unat_byte [OF l(3)]
    and u4 = unat_byte [OF l(4)]
  have r1: "0xF0 \<le> b1" "b1 \<le> 0xF4" using q3 by (simp_all add: b1_def)
  have lo: "0x90 \<le> b2" if "b1 = 0xF0"
  proof -
    from that have "q3 = 0" by (simp add: b1_def)
    with assms(1) c q1 q2 have "16 \<le> r3" by linarith
    then show ?thesis by (simp add: b2_def)
  qed
  have hi: "b2 \<le> 0x8F" if "b1 = 0xF4"
  proof -
    from that have "q3 = 4" by (simp add: b1_def)
    with assms(2) c q1 q2 have "r3 < 16" by linarith
    then show ?thesis by (simp add: b2_def)
  qed
  have r2: "(if b1 = 0xF0 then 0x90 else 0x80) \<le> b2"
    "b2 \<le> (if b1 = 0xF4 then 0x8F else 0xBF)"
    using lo hi q2(2) by (simp_all add: b2_def)
  have r3: "0x80 \<le> b3" "b3 \<le> 0xBF" using q1(2) by (simp_all add: b3_def)
  have r4: "0x80 \<le> b4" "b4 \<le> 0xBF" using c(2) by (simp_all add: b4_def)
  have q3': "q3 < 8" using q3 by simp
  have m1: "b1 mod 8 = q3" unfolding b1_def by (rule lead4_mod [OF q3'])
  have m2: "((q3 * 64 + b2 mod 64) * 64 + b3 mod 64) * 64 + b4 mod 64 = c"
    using c q1 q2 by (simp add: b2_def b3_def b4_def mod64_cont)
  have enc: "utf8_encode_scalar c = [of_nat b1, of_nat b2, of_nat b3, of_nat b4]"
    using assms
    by (simp add: utf8_encode_scalar_def b1_def b2_def b3_def b4_def e1 e2 q1_def r1_def r2_def
        r3_def)
  have s1: "utf8_handler utf8_decoder_init b1 =
     (\<lparr>code_point = q3, bytes_seen = 0, bytes_needed = 3,
       lower_boundary = (if b1 = 0xF0 then 0x90 else 0x80),
       upper_boundary = (if b1 = 0xF4 then 0x8F else 0xBF)\<rparr>, [])"
    using handler_lead4 [OF r1] by (simp only: m1)
  define cp2 cp3 where "cp2 = q3 * 64 + b2 mod 64" and "cp3 = cp2 * 64 + b3 mod 64"
  have m3: "cp3 * 64 + b4 mod 64 = c" using m2 by (simp only: cp2_def cp3_def)
  have s2: "utf8_handler \<lparr>code_point = q3, bytes_seen = 0, bytes_needed = 3,
       lower_boundary = (if b1 = 0xF0 then 0x90 else 0x80),
       upper_boundary = (if b1 = 0xF4 then 0x8F else 0xBF)\<rparr> b2 =
     (\<lparr>code_point = cp2, bytes_seen = Suc 0, bytes_needed = 3,
       lower_boundary = 0x80, upper_boundary = 0xBF\<rparr>, [])"
    unfolding cp2_def by (rule handler_continue [OF r2]) simp
  have s3: "utf8_handler \<lparr>code_point = cp2, bytes_seen = Suc 0,
       bytes_needed = 3, lower_boundary = 0x80, upper_boundary = 0xBF\<rparr> b3 =
     (\<lparr>code_point = cp3, bytes_seen = Suc (Suc 0),
       bytes_needed = 3, lower_boundary = 0x80, upper_boundary = 0xBF\<rparr>, [])"
    unfolding cp3_def by (rule handler_continue [OF r3]) simp
  have s4: "utf8_handler \<lparr>code_point = cp3,
       bytes_seen = Suc (Suc 0), bytes_needed = 3, lower_boundary = 0x80,
       upper_boundary = 0xBF\<rparr> b4 = (utf8_decoder_init, [c])"
    using handler_last [OF r4, of "Suc (Suc 0)" 3 cp3]
    by (simp only: m3)
  show ?thesis
    unfolding enc by (simp add: u1 u2 u3 u4 s1 s2 s3 s4)
qed

lemma decode_scalar:
  assumes "is_scalar c"
  shows "utf8_decode utf8_decoder_init (utf8_encode_scalar c @ rest) =
           c # utf8_decode utf8_decoder_init rest"
proof -
  consider "c < 0x80" | "0x80 \<le> c" "c < 0x800"
    | "0x800 \<le> c" "c < 0x10000" "\<not> (0xD800 \<le> c \<and> c \<le> 0xDFFF)"
    | "0x10000 \<le> c" "c < 0x110000"
    using assms unfolding is_scalar_def by linarith
  then show ?thesis
  proof cases
    case 1
    then show ?thesis by (rule decode_scalar1)
  next
    case 2
    then show ?thesis by (rule decode_scalar2)
  next
    case 3
    then show ?thesis by (rule decode_scalar3)
  next
    case 4
    then show ?thesis by (rule decode_scalar4)
  qed
qed

lemma decode_scalars:
  "list_all is_scalar cs \<Longrightarrow>
   utf8_decode utf8_decoder_init (concat (map utf8_encode_scalar cs)) = cs"
proof (induction cs)
  case Nil
  show ?case by (simp add: utf8_decoder_init_def)
next
  case (Cons c cs)
  then show ?case by (simp add: decode_scalar)
qed

lemma surrogate_disjoint: "is_lead_surrogate u \<Longrightarrow> \<not> is_trail_surrogate u"
  by (simp add: is_lead_surrogate_def is_trail_surrogate_def)

lemma unat_unit: "unat (u :: 16 word) < 0x10000"
  using unsigned_less [of u, where 'a = nat] by simp

lemma scalar_unit:
  "\<not> is_lead_surrogate u \<Longrightarrow> \<not> is_trail_surrogate u \<Longrightarrow> is_scalar (unat u)"
  using unat_unit [of u]
  by (auto simp: is_scalar_def is_lead_surrogate_def is_trail_surrogate_def)

lemma scalar_pair:
  "is_lead_surrogate u \<Longrightarrow> is_trail_surrogate v \<Longrightarrow>
   is_scalar (0x10000 + (unat u - 0xD800) * 0x400 + (unat v - 0xDC00))"
  by (auto simp: is_scalar_def is_lead_surrogate_def is_trail_surrogate_def)

lemma scalar_replacement: "is_scalar 0xFFFD"
  by (simp add: is_scalar_def)

lemma scalar_values_scalar: "list_all is_scalar (scalar_values s)"
  by (induction s rule: scalar_values.induct)
     (simp_all add: scalar_unit scalar_pair scalar_replacement surrogate_disjoint)

lemma TextDecoder_TextEncoder:
  "TextDecoder_decode (TextEncoder_encode s) =
     concat (map utf16_units (strip_BOM (scalar_values s)))"
  by (simp add: TextDecoder_decode_def TextEncoder_encode_def decode_scalars scalar_values_scalar)


lemma of_nat_unat_unit: "of_nat (unat u) = (u :: 16 word)"
  by simp

lemma utf16_unit:
  "\<not> is_lead_surrogate u \<Longrightarrow> \<not> is_trail_surrogate u \<Longrightarrow> utf16_units (unat u) = [u]"
  using unat_unit [of u] by (simp add: utf16_units_def)

lemma utf16_pair:
  assumes "is_lead_surrogate u" "is_trail_surrogate v"
  shows "utf16_units (0x10000 + (unat u - 0xD800) * 0x400 + (unat v - 0xDC00)) = [u, v]"
proof -
  define h l where "h = unat u - 0xD800" and "l = unat v - 0xDC00"
  have h: "unat u = 0xD800 + h" and l: "unat v = 0xDC00 + l" "l < 0x400"
    using assms unfolding h_def l_def is_lead_surrogate_def is_trail_surrogate_def
    by linarith+
  have d: "(h * 0x400 + l) div 0x400 = h" and m: "(h * 0x400 + l) mod 0x400 = l"
    using l(2) by simp_all
  have "utf16_units (0x10000 + h * 0x400 + l) = [of_nat (0xD800 + h), of_nat (0xDC00 + l)]"
    using d m by (simp add: utf16_units_def add.assoc del: of_nat_add)
  also have "\<dots> = [of_nat (unat u), of_nat (unat v)]"
    by (simp only: h l(1))
  finally show ?thesis
    by (simp add: h_def l_def)
qed

lemma utf16_scalar_values:
  "well_formed s \<Longrightarrow> concat (map utf16_units (scalar_values s)) = s"
  by (induction s rule: scalar_values.induct)
     (simp_all add: utf16_unit utf16_pair surrogate_disjoint)

lemma strip_BOM_scalar_values:
  assumes "well_formed s" and "take 1 s \<noteq> [0xFEFF]"
  shows "strip_BOM (scalar_values s) = scalar_values s"
proof (cases s rule: scalar_values.cases)
  case 1
  then show ?thesis by simp
next
  case (2 u)
  with assms have "unat u \<noteq> 0xFEFF"
    by (metis of_nat_unat_unit of_nat_numeral take_Suc_Cons take_0 One_nat_def)
  with 2 assms(1) show ?thesis by simp
next
  case (3 u v rest)
  with assms have "unat u \<noteq> 0xFEFF"
    by (metis of_nat_unat_unit of_nat_numeral take_Suc_Cons take_0 One_nat_def)
  with 3 assms(1) show ?thesis by (simp add: surrogate_disjoint)
qed

lemma TextDecoder_TextEncoder_id:
  "well_formed s \<Longrightarrow> take 1 s \<noteq> [0xFEFF] \<Longrightarrow> TextDecoder_decode (TextEncoder_encode s) = s"
  by (simp add: TextDecoder_TextEncoder strip_BOM_scalar_values utf16_scalar_values)


subsection \<open>Error frames\<close>

lemma drop_error_frame:
  "drop HEADER_SIZE (encodeErrorResponse i c message) = error_body c message"
  by (simp add: encodeErrorResponse_layout HEADER_SIZE_def length_header)

lemma decodeErrorResponse_error_body:
  "decodeErrorResponse (error_body c message) =
     (ToInt32 c, TextDecoder_decode (TextEncoder_encode message))"
proof -
  have "subarray (error_body c message) 4 (length (error_body c message)) =
      TextEncoder_encode message"
    by (simp add: subarray_def error_body_def)
  then show ?thesis
    using readI32_error_body [of c message "[]"] by (simp add: decodeErrorResponse_def)
qed

lemma ToInt32_signed: "- (2 ^ 31) \<le> c \<Longrightarrow> c < 2 ^ 31 \<Longrightarrow> ToInt32 c = c"
  by (simp add: ToInt32_eq signed_take_bit_int_eq_self)

text \<open>
  Claim C8, amended. For every signed 32-bit code and every message that has no unpaired
  surrogate and does not start with U+FEFF, the frame of
  \<open>encodeErrorResponse(id, code, message)\<close> has type byte 3 and method field 0, the bytes
  after its header are \<open>4 + UTF-8(message).length\<close> many, and \<open>decodeErrorResponse\<close> on
  them returns exactly \<open>(code, message)\<close>. When that body is shorter than \<open>2^32\<close> bytes
  it is also the body that \<open>decodeMessage\<close> returns for the frame.
\<close>

theorem error_frame_roundtrip:
  assumes "- (2 ^ 31) \<le> code" and "code < 2 ^ 31"
    and "well_formed message" and "take 1 message \<noteq> [0xFEFF]"
  shows "let frame = encodeErrorResponse i code message;
             body = drop HEADER_SIZE frame
         in elem frame 0 = 3 \<and> read16 frame 2 = 0 \<and>
            length body = 4 + length (TextEncoder_encode message) \<and>
            decodeErrorResponse body = (code, message) \<and>
            (length body < 2 ^ 32 \<longrightarrow>
               decodeMessage frame =
                 Inr \<lparr>msg_type = 3, msg_id = take_bit 32 i, msg_method = 0, msg_body = body\<rparr>)"
proof -
  have len: "length (error_body code message) = 4 + length (TextEncoder_encode message)"
    by (simp add: error_body_def)
  have dec: "decodeMessage (encodeErrorResponse i code message) =
      Inr \<lparr>msg_type = 3, msg_id = take_bit 32 i, msg_method = 0,
           msg_body = error_body code message\<rparr>"
    if "length (error_body code message) < 2 ^ 32"
  proof -
    have "take_bit 32 (int (length (error_body code message))) =
        int (length (error_body code message))"
      using that by (rule take_bit_length)
    then show ?thesis
      using decode_header [of 3 i 0 "int (length (error_body code message))"
          "error_body code message"]
      by (simp add: encodeErrorResponse_layout len)
  qed
  show ?thesis
    unfolding Let_def drop_error_frame
    using dec
    by (simp add: error_frame_type error_frame_method len
        decodeErrorResponse_error_body ToInt32_signed [OF assms(1,2)]
        TextDecoder_TextEncoder_id [OF assms(3,4)])
qed

section \<open>The claims on the example peers\<close>

text \<open>
  Each theorem above that has a hypothesis is applied here to an example peer, where its
  hypotheses hold. First the example peers, computed: \<open>example_peer\<close> has a transport
  callback, a guarded handler for method 0 and two pending requests.
\<close>

lemma fresh_peer_eq:
  "fresh_peer = \<lparr>requestTimeout = double_of_int 5000, toTransport = None, dispatcher = [], pendingRequests = [],
      schema = example_schema, timeoutCheckInterval = None, requestIdCounter = 0,
      entries = [], trace = []\<rparr>"
  by (simp add: fresh_peer_def FbRpc_new_def)

lemma guarded_peer_eq:
  "guarded_peer = \<lparr>requestTimeout = double_of_int 5000, toTransport = None, dispatcher = [(0, 0)],
      pendingRequests = [], schema = example_schema, timeoutCheckInterval = None,
      requestIdCounter = 0, entries = [example_entry], trace = []\<rparr>"
  by (simp add: guarded_peer_def run_def fresh_peer_eq registerHandler_def example_schema_def
      push_guard_def Let_def example_entry_def)

lemma example_peer_eq:
  "example_peer = \<lparr>requestTimeout = double_of_int 5000, toTransport = Some 1, dispatcher = [(0, 0)],
      pendingRequests = [(1, \<lparr>req_id = 1, req_method = 0, timestamp = double_of_int 10\<rparr>),
                         (2, \<lparr>req_id = 2, req_method = 3, timestamp = double_of_int 20\<rparr>)],
      schema = example_schema, timeoutCheckInterval = Some (Interval 100),
      requestIdCounter = 2, entries = [example_entry],
      trace = [ToTransport 1 (encodeMessage 0 1 0 [1]) 7, ToTransport 1 (encodeMessage 0 2 3 []) 7]\<rparr>"
  by (simp add: example_peer_def run_def guarded_peer_eq registerToTransportCallback_def
      request_def Let_def generateRequestId_def js_ushr0_def ToUint32_def packFB_def
      Map_size_def startTimeoutChecker_def callToTransport_def TIMEOUT_CHECK_INTERVAL_MS_def)


lemma decode_encode_small:
  "length body < 2 ^ 32 \<Longrightarrow>
   decodeMessage (encodeMessage t i m body) =
     Inr \<lparr>msg_type = take_bit 8 t, msg_id = take_bit 32 i, msg_method = take_bit 16 m,
          msg_body = body\<rparr>"
  by (simp add: decode_encode take_bit_length)

text \<open>Three bytes are not a frame: the parse error goes to the callback.\<close>

theorem parse_error_path_witness:
  "fromTransport example_peer [1, 2, 3] 0 =
     example_peer\<lparr>trace := trace example_peer @
       [ToTransport 1 (encodeErrorResponse (-1) PARSE_ERROR_code PARSE_ERROR_message) 0]\<rparr>"
  using parse_error_path [of "[1, 2, 3]" example_peer 0]
  by (simp add: Let_def example_peer_eq)

text \<open>A frame of type 9 changes nothing.\<close>

theorem unknown_type_ignored_witness:
  "decodeMessage (encodeMessage 9 0 0 []) =
     Inr \<lparr>msg_type = 9, msg_id = 0, msg_method = 0, msg_body = []\<rparr> \<and>
   fromTransport example_peer (encodeMessage 9 0 0 []) 0 = example_peer"
proof -
  have d: "decodeMessage (encodeMessage 9 0 0 []) =
     Inr \<lparr>msg_type = 9, msg_id = 0, msg_method = 0, msg_body = []\<rparr>"
    by (simp add: decode_encode_small)
  show ?thesis
    using unknown_type_ignored [OF d, of example_peer 0] d by simp
qed

lemma decode_request_99:
  "decodeMessage (encodeMessage 0 4 99 []) =
     Inr \<lparr>msg_type = 0, msg_id = 4, msg_method = 99, msg_body = []\<rparr>"
  by (simp add: decode_encode_small)

text \<open>A Request for the unregistered method 99 is answered with code 1002.\<close>

theorem unknown_method_witness:
  "fromTransport example_peer (encodeMessage 0 4 99 []) 0 =
     example_peer\<lparr>trace := trace example_peer @
       [ToTransport 1 (encodeErrorResponse 4 METHOD_NOT_FOUND_code METHOD_NOT_FOUND_message) 0]\<rparr>"
  using unknown_method [OF decode_request_99, of example_peer 0]
  by (simp add: Let_def example_peer_eq Map_get_def)

text \<open>
  Claim C6 as stated fails on a peer with no transport callback: the Request for the
  unknown method 99 is answered by no frame at all.
\<close>

theorem unknown_method_without_sink:
  "decodeMessage (encodeMessage 0 4 99 []) =
     Inr \<lparr>msg_type = 0, msg_id = 4, msg_method = 99, msg_body = []\<rparr> \<and>
   Map_get (dispatcher fresh_peer) 99 = None \<and>
   trace (fromTransport fresh_peer (encodeMessage 0 4 99 []) 0) = []"
  by (simp add: decode_request_99 fromTransport_def handleRequest_def Let_def callToTransport_def
      fresh_peer_eq Map_get_def)

text \<open>Teardown of the example peer rejects both waiters and empties the peer.\<close>

theorem clean_postcondition_witness:
  "trace (clean example_peer (js_str ''bye'')) =
     trace example_peer @
       [Reject \<lparr>req_id = 1, req_method = 0, timestamp = double_of_int 10\<rparr>
          \<lparr>err_code = 1004, err_message = INTERNAL_ERROR_message, err_id = -1,
           err_errorMessage = js_str ''bye''\<rparr>,
        Reject \<lparr>req_id = 2, req_method = 3, timestamp = double_of_int 20\<rparr>
          \<lparr>err_code = 1004, err_message = INTERNAL_ERROR_message, err_id = -1,
           err_errorMessage = js_str ''bye''\<rparr>] \<and>
   pendingRequests (clean example_peer (js_str ''bye'')) = [] \<and>
   dispatcher (clean example_peer (js_str ''bye'')) = [] \<and>
   guards (entries (clean example_peer (js_str ''bye'')) ! 0) = [] \<and>
   timeoutCheckInterval (clean example_peer (js_str ''bye'')) = None \<and>
   toTransport (clean example_peer (js_str ''bye'')) = None"
  using clean_postcondition [of example_peer "js_str ''bye''"]
  by (simp add: Let_def example_peer_eq)

lemma decode_response_1:
  "decodeMessage (encodeMessage 2 1 0 [4, 5]) =
     Inr \<lparr>msg_type = 2, msg_id = 1, msg_method = 0, msg_body = [4, 5]\<rparr>"
  by (simp add: decode_encode_small)

text \<open>A Response to request 1 with a two-byte body resolves its waiter with the reader.\<close>

theorem response_completion_witness:
  "pendingRequests (fromTransport example_peer (encodeMessage 2 1 0 [4, 5]) 0) =
     [(2, \<lparr>req_id = 2, req_method = 3, timestamp = double_of_int 20\<rparr>)] \<and>
   trace (fromTransport example_peer (encodeMessage 2 1 0 [4, 5]) 0) =
     trace example_peer @ [Resolve \<lparr>req_id = 1, req_method = 0, timestamp = double_of_int 10\<rparr> (Some 2)]"
  using response_completion [OF decode_response_1, of example_peer 0]
  by (simp add: example_peer_eq Map_get_def Map_delete_def example_schema_def unpackFB_def)

text \<open>
  At time 5015 the first waiter (of time 10) is expired and the second (of time 20) is not;
  the time is finite and the timestamps of the table increase.
\<close>

theorem timeout_sweep_witness:
  "distinct (map fst (pendingRequests example_peer)) \<and>
   timeoutCheckInterval example_peer \<noteq> None \<and>
   is_finite (double_of_int 5015) \<and>
   sorted_wrt double_le (map (timestamp \<circ> snd) (pendingRequests example_peer)) \<and>
   pendingRequests (tick example_peer (double_of_int 5015)) =
     [(2, \<lparr>req_id = 2, req_method = 3, timestamp = double_of_int 20\<rparr>)] \<and>
   trace (tick example_peer (double_of_int 5015)) =
     trace example_peer @
       [Reject \<lparr>req_id = 1, req_method = 0, timestamp = double_of_int 10\<rparr>
          \<lparr>err_code = 1005, err_message = REQUEST_TIMEOUT_message, err_id = -1,
           err_errorMessage = []\<rparr>]"
  using timeout_sweep [of example_peer "double_of_int 5015"]
  by (simp add: Let_def example_peer_eq double_sub_of_int double_ge_of_int double_le_of_int
      is_finite_of_int)


lemma decode_request_5:
  "decodeMessage (encodeMessage 0 5 0 [9]) =
     Inr \<lparr>msg_type = 0, msg_id = 5, msg_method = 0, msg_body = [9]\<rparr>"
  by (simp add: decode_encode_small)

text \<open>
  A Request for method 0 in session 0: the request guard passes, the session guard throws,
  and the error frame is sent.
\<close>

theorem guard_chain_witness:
  "fromTransport example_peer (encodeMessage 0 5 0 [9]) 0 =
     example_peer\<lparr>trace := trace example_peer @
       [GuardCall 0 0 [ReqArg 1], GuardCall 0 1 [AppDataArg 0],
        ToTransport 1 (encodeErrorResponse 5 GUARD_ERROR_code (js_str ''Error: denied'')) 0]\<rparr>"
proof -
  let ?msg = "\<lparr>msg_type = 0, msg_id = 5, msg_method = 0, msg_body = [9]\<rparr>"
  have 1: "msg_type ?msg = 0 \<or> msg_type ?msg = 1" by simp
  have 2: "Map_get (dispatcher example_peer) (msg_method ?msg) = Some 0"
    by (simp add: example_peer_eq Map_get_def)
  have 3: "0 < length (entries example_peer)" by (simp add: example_peer_eq)
  have 4: "unpackFB (Req (entries example_peer ! 0)) (msg_body ?msg) = Inr 1"
    by (simp add: example_peer_eq example_entry_def unpackFB_def)
  note gc = guard_chain [OF decode_request_5 1 2 3 4, of 0 passing_guard, unfolded Let_def]
  from gc have "\<forall>j e. j < length (guards (entries example_peer ! 0)) \<and>
      (\<forall>i<j. \<exists>v. guard_fn (guards (entries example_peer ! 0) ! i)
          (guard_args (guard_type (guards (entries example_peer ! 0) ! i)) 1 0) = Return v) \<and>
      guard_fn (guards (entries example_peer ! 0) ! j)
          (guard_args (guard_type (guards (entries example_peer ! 0) ! j)) 1 0) = Throw e \<longrightarrow>
      fromTransport example_peer (encodeMessage 0 5 0 [9]) 0 =
        example_peer\<lparr>trace := trace example_peer @
          map (\<lambda>i. GuardCall (msg_method ?msg) i
                 (guard_args (guard_type (guards (entries example_peer ! 0) ! i)) 1 0)) [0..<Suc j] @
          (if msg_type ?msg = 0 then
             (case toTransport example_peer of
                Some cb \<Rightarrow> [ToTransport cb
                  (encodeErrorResponse (msg_id ?msg) GUARD_ERROR_code (Error_toString e)) 0]
              | None \<Rightarrow> [])
           else [])\<rparr>"
    by blast
  from this [rule_format, of 1 example_error] show ?thesis
    by (simp add: example_peer_eq example_entry_def guard_args_def passing_guard_def
        session_guard_def example_error_def less_Suc_eq upt_rec)
qed

text \<open>
  Claim C5 as stated fails on a peer with no transport callback: the second guard throws on
  a Request, and no ErrorResponse is handed to any callback.
\<close>

theorem guard_chain_without_sink:
  "decodeMessage (encodeMessage 0 5 0 [9]) =
     Inr \<lparr>msg_type = 0, msg_id = 5, msg_method = 0, msg_body = [9]\<rparr> \<and>
   toTransport guarded_peer = None \<and>
   trace (fromTransport guarded_peer (encodeMessage 0 5 0 [9]) 0) =
     [GuardCall 0 0 [ReqArg 1], GuardCall 0 1 [AppDataArg 0]]"
  by (simp add: decode_request_5 fromTransport_def handleRequest_def Let_def callToTransport_def
      guarded_peer_eq Map_get_def example_entry_def unpackFB_def guard_args_def
      passing_guard_def session_guard_def)


text \<open>The error frame of code \<open>-7\<close> and message \<open>hi\<close>.\<close>

theorem error_frame_roundtrip_witness:
  "decodeErrorResponse (drop HEADER_SIZE (encodeErrorResponse 1 (-7) (js_str ''hi''))) =
     (-7, js_str ''hi'') \<and>
   length (drop HEADER_SIZE (encodeErrorResponse 1 (-7) (js_str ''hi''))) = 6"
proof -
  have w: "well_formed (js_str ''hi'')" "take 1 (js_str ''hi'') \<noteq> [0xFEFF]"
    by (simp_all add: js_str_def is_lead_surrogate_def is_trail_surrogate_def)
  have e: "TextEncoder_encode (js_str ''hi'') = [104, 105]"
    by (simp add: TextEncoder_encode_def js_str_def is_lead_surrogate_def is_trail_surrogate_def
        utf8_encode_scalar_def)
  show ?thesis
    using error_frame_roundtrip [of "-7" "js_str ''hi''" 1, OF _ _ w]
    by (simp add: Let_def e)
qed

text \<open>
  Claim C8 as stated ("every string message") fails on a message that is an unpaired
  surrogate, which comes back as U+FFFD, and on a message that starts with U+FEFF, which
  comes back without it.
\<close>

theorem error_frame_message_not_preserved:
  "decodeErrorResponse (drop HEADER_SIZE (encodeErrorResponse 1 5 [0xD800])) = (5, [0xFFFD]) \<and>
   decodeErrorResponse (drop HEADER_SIZE (encodeErrorResponse 1 5 [0xFEFF, 0x61])) = (5, [0x61])"
proof -
  have "ToInt32 5 = 5" by (simp add: ToInt32_eq)
  then show ?thesis
    by (simp add: drop_error_frame decodeErrorResponse_error_body TextDecoder_TextEncoder
        is_lead_surrogate_def is_trail_surrogate_def utf16_units_def)
qed

end
